theory Spec2Isabelle
  imports Complex_Main "HOL-Library.Multiset" "HOL-Library.Sublist"
begin

section \<open>Data model (src/types/db.ts)\<close>

text \<open>
  The interfaces of \<^verbatim>\<open>src/types/db.ts\<close> as records. JavaScript numbers that hold ids,
  indices and limits are integers here. The field \<^verbatim>\<open>id\<close> is called \<open>id_raw\<close>
  (of a raw item) and \<open>id_art\<close> (of a cluster article), since \<open>id\<close> is the identity
  function of HOL; the fields of \<^verbatim>\<open>NewsArticle\<close> that share a name with a field of
  \<^verbatim>\<open>NewsRawItem\<close> carry the suffix \<open>_art\<close>.
\<close>

record NewsRawItem =
  id_raw :: int
  source :: string
  title :: string
  article :: string
  cats :: "int list"
  imgUrl :: string
  cluster_id :: int
  created_at :: string
  guid :: string
  objective :: int

record NewsArticle =
  id_art :: int
  title_art :: string
  short_desc :: string
  articles :: "int list"
  created_at_art :: string
  cats_art :: "int list"

record TableInfo =
  latest_id :: int

record Tables =
  news_articles :: TableInfo
  news_raw :: TableInfo
  news_sources :: TableInfo
  tag_articles :: TableInfo
  tags :: TableInfo

record Meta =
  generated_at :: string
  tables :: Tables

section \<open>Batch resolver\<close>

text \<open>
  \<^verbatim>\<open>getBatchId(newsId) = Math.floor(newsId / 100) * 100\<close>
  (src/lib/api.ts, src/lib/utils.ts, reference/api.ts; written inline in the client).
  The division is the division of numbers, followed by \<^verbatim>\<open>Math.floor\<close>. \<open>getBatchId\<close> is
  this computation on the integers; \<open>getBatchId_binary64\<close> below is the same computation
  in the arithmetic of the numbers of the language, and the two agree on every id up to
  \<open>2 ^ 53 - 100\<close> in magnitude (lemma \<open>getBatchId_binary64_exact\<close>). The accessors are
  stated with \<open>getBatchId\<close>.
\<close>

definition getBatchId :: "int \<Rightarrow> int" where
  "getBatchId newsId = \<lfloor>real_of_int newsId / 100\<rfloor> * 100"

text \<open>
  The numbers of the language are binary64: a quotient and a product are rounded to the
  nearest number with a significand of 53 bits, a tie going to the even significand.
  \<open>binary64 p q\<close> is the rounded value of the fraction \<open>p / q\<close>, given as a pair
  \<open>(m, s)\<close> that stands for \<open>m * 2 ^ s\<close>: \<open>bitlen\<close> is the number of binary digits,
  \<open>exponent2 a b\<close> the exponent \<open>e\<close> with \<open>2 ^ e \<le> a / b < 2 ^ (e + 1)\<close> (lemma
  \<open>exponent2_correct\<close>), and \<open>rne a b\<close> the integer nearest to \<open>a / b\<close>, ties to even. The
  range of the exponent is not limited (the numbers here are far from both of its ends).
  \<open>floor64\<close> is \<^verbatim>\<open>Math.floor\<close> and \<open>value64\<close> the value as a real number. In
  \<open>getBatchId_binary64\<close> the id and 100 are integers, the quotient is rounded, its floor
  is an integer, and the product with 100 is rounded.
\<close>

fun bitlen :: "nat \<Rightarrow> nat" where
  "bitlen n = (if n = 0 then 0 else Suc (bitlen (n div 2)))"

declare bitlen.simps [simp del]

definition rne :: "nat \<Rightarrow> nat \<Rightarrow> nat" where
  "rne a b =
     (let d = a div b; r = a mod b in
      if 2 * r < b then d else if b < 2 * r then d + 1 else if even d then d else d + 1)"

definition exponent2 :: "nat \<Rightarrow> nat \<Rightarrow> int" where
  "exponent2 a b =
     (let d = int (bitlen a) - int (bitlen b) in
      if a * 2 ^ nat (- d) < b * 2 ^ nat d then d - 1 else d)"

definition binary64 :: "int \<Rightarrow> nat \<Rightarrow> int \<times> int" where
  "binary64 p q =
     (if p = 0 then (0, 0)
      else
        (let a = nat \<bar>p\<bar>;
             s = exponent2 a q - 52;
             m = rne (a * 2 ^ nat (- s)) (q * 2 ^ nat s)
         in (sgn p * int m, s)))"

definition floor64 :: "int \<times> int \<Rightarrow> int" where
  "floor64 x = (case x of (m, s) \<Rightarrow> if 0 \<le> s then m * 2 ^ nat s else m div 2 ^ nat (- s))"

definition getBatchId_binary64 :: "int \<Rightarrow> int" where
  "getBatchId_binary64 newsId = floor64 (binary64 (floor64 (binary64 newsId 100) * 100) 1)"

definition value64 :: "int \<times> int \<Rightarrow> real" where
  "value64 x = (case x of (m, s) \<Rightarrow> real_of_int m * 2 ^ nat s / 2 ^ nat (- s))"

section \<open>The remote API\<close>

text \<open>
  Every function of the data-access layer reads a resource \<^verbatim>\<open>base_url/name.json\<close> with
  \<^verbatim>\<open>fetch\<close>. A call of \<^verbatim>\<open>fetch\<close> either rejects (no connection, or the abort of
  the timeout) or resolves to a response with a status; \<^verbatim>\<open>response.ok\<close> holds for the
  statuses 200 to 299. The body of a response is the decoded value of the type that the
  source declares for the resource (an array of \<^verbatim>\<open>NewsRawItem\<close> for a batch of raw
  items). The requests that were issued are recorded in a log, in the order of issue.
  A response whose body cannot be read or decoded is the subject of a section of its own
  below, with the accessors for one batch and for one item stated over it.
\<close>

datatype 'a response = Rejected | Http nat 'a

definition ok :: "nat \<Rightarrow> bool" where
  "ok status = (200 \<le> status \<and> status \<le> 299)"

datatype request = GetMeta | GetNewsRaw int | GetNewsArticles int

record server =
  meta_json :: "Meta response"
  news_raw_json :: "int \<Rightarrow> NewsRawItem list response"
  news_articles_json :: "int \<Rightarrow> NewsArticle list response"

datatype error = FetchRejected | HttpError nat | BodyFailed

section \<open>Build-time accessors without a cache (src/lib/api.ts)\<close>

text \<open>
  \<^verbatim>\<open>fetchFile\<close>: throws on a response that is not ok, and lets the rejection of
  \<^verbatim>\<open>fetch\<close> through. \<^verbatim>\<open>fetchMeta\<close> is \<^verbatim>\<open>fetchFile('meta')\<close>.
\<close>

definition fetchFile :: "'a response \<Rightarrow> request \<Rightarrow> request list \<Rightarrow> (error + 'a) \<times> request list" where
  "fetchFile resp file reqs =
     (case resp of
        Rejected \<Rightarrow> (Inl FetchRejected, reqs @ [file])
      | Http status data \<Rightarrow>
          if \<not> ok status then (Inl (HttpError status), reqs @ [file])
          else (Inr data, reqs @ [file]))"

definition fetchMeta :: "server \<Rightarrow> request list \<Rightarrow> (error + Meta) \<times> request list" where
  "fetchMeta w reqs = fetchFile (meta_json w) GetMeta reqs"

text \<open>
  \<^verbatim>\<open>fetchNewsRawBatch\<close>: a response that is not ok and a rejected \<^verbatim>\<open>fetch\<close> both give
  the empty array.
\<close>

definition fetchNewsRawBatch :: "server \<Rightarrow> int \<Rightarrow> request list \<Rightarrow> NewsRawItem list \<times> request list" where
  "fetchNewsRawBatch w startId reqs =
     (let batchStart = getBatchId startId in
      case news_raw_json w batchStart of
        Rejected \<Rightarrow> ([], reqs @ [GetNewsRaw batchStart])
      | Http status body \<Rightarrow>
          if \<not> ok status then ([], reqs @ [GetNewsRaw batchStart])
          else (body, reqs @ [GetNewsRaw batchStart]))"

text \<open>
  The \<^verbatim>\<open>Map\<close> from batch id to the requested ids of that batch keeps its keys in
  the order of their first insertion, so it is an association list: \<open>Map_has\<close> is
  \<^verbatim>\<open>has\<close>, \<open>Map_set_empty\<close> is \<^verbatim>\<open>set(batchId, [])\<close> on a key that is absent, and
  \<open>Map_push\<close> is \<^verbatim>\<open>get(batchId).push(id)\<close>.
\<close>

definition Map_has :: "('k \<times> 'v) list \<Rightarrow> 'k \<Rightarrow> bool" where
  "Map_has m k = (k \<in> fst ` set m)"

definition Map_set_empty :: "('k \<times> 'v list) list \<Rightarrow> 'k \<Rightarrow> ('k \<times> 'v list) list" where
  "Map_set_empty m k = m @ [(k, [])]"

fun Map_push :: "('k \<times> 'v list) list \<Rightarrow> 'k \<Rightarrow> 'v \<Rightarrow> ('k \<times> 'v list) list" where
  "Map_push [] k v = []"
| "Map_push ((k', vs) # m) k v =
     (if k' = k then (k', vs @ [v]) # m else (k', vs) # Map_push m k v)"

definition group_step :: "(int \<times> int list) list \<Rightarrow> int \<Rightarrow> (int \<times> int list) list" where
  "group_step batchGroups newsId =
     (let batchId = getBatchId newsId;
          groups = (if \<not> Map_has batchGroups batchId then Map_set_empty batchGroups batchId
                    else batchGroups)
      in Map_push groups batchId newsId)"

definition batchGroups :: "int list \<Rightarrow> (int \<times> int list) list" where
  "batchGroups ids = foldl group_step [] ids"

text \<open>The loop \<^verbatim>\<open>for (const [batchId, idsInBatch] of batchGroups)\<close>.\<close>

fun fetch_groups ::
  "server \<Rightarrow> (int \<times> int list) list \<Rightarrow> NewsRawItem list \<Rightarrow> request list
     \<Rightarrow> NewsRawItem list \<times> request list" where
  "fetch_groups w [] results reqs = (results, reqs)"
| "fetch_groups w ((batchId, idsInBatch) # rest) results reqs =
     (case fetchNewsRawBatch w batchId reqs of
        (batch, reqs') \<Rightarrow>
          fetch_groups w rest
            (results @ filter (\<lambda>item. id_raw item \<in> set idsInBatch) batch) reqs')"

text \<open>
  \<^verbatim>\<open>new Map(ids.map((id, index) => [id, index]))\<close>: a later entry for the same id
  replaces the earlier one. The comparator of the final sort is the difference of
  \<^verbatim>\<open>idOrder.get(x.id) || 0\<close> at the two items, and \<^verbatim>\<open>sort\<close> is stable, so the sort
  is the stable sort on that key.
\<close>

definition idOrder :: "int list \<Rightarrow> (int \<rightharpoonup> nat)" where
  "idOrder ids = fold (\<lambda>(newsId, index) m. m(newsId \<mapsto> index)) (zip ids [0..<length ids]) Map.empty"

definition orderKey :: "(int \<rightharpoonup> nat) \<Rightarrow> NewsRawItem \<Rightarrow> nat" where
  "orderKey m a = (case m (id_raw a) of None \<Rightarrow> 0 | Some index \<Rightarrow> index)"

definition fetchNewsRawByIds :: "server \<Rightarrow> int list \<Rightarrow> request list \<Rightarrow> NewsRawItem list \<times> request list" where
  "fetchNewsRawByIds w ids reqs =
     (if length ids = 0 then ([], reqs)
      else case fetch_groups w (batchGroups ids) [] reqs of
        (results, reqs') \<Rightarrow> (sort_key (orderKey (idOrder ids)) results, reqs'))"

text \<open>\<^verbatim>\<open>fetchNewsRawById\<close>: \<^verbatim>\<open>find\<close> gives \<^verbatim>\<open>undefined\<close> (here \<open>None\<close>) when no item matches.\<close>

definition fetchNewsRawById :: "server \<Rightarrow> int \<Rightarrow> request list \<Rightarrow> NewsRawItem option \<times> request list" where
  "fetchNewsRawById w newsId reqs =
     (case fetchNewsRawBatch w newsId reqs of
        (batch, reqs') \<Rightarrow> (find (\<lambda>item. id_raw item = newsId) batch, reqs'))"

text \<open>
  The batches of \<^verbatim>\<open>searchNews\<close> are requested in the order of the loop that builds
  the array of promises and joined by \<^verbatim>\<open>Promise.all\<close>; \<^verbatim>\<open>fetchRecentNews\<close> awaits
  them one after the other. Both give the list of the batches in the order of the start
  ids.
\<close>

fun fetch_batches ::
  "server \<Rightarrow> int list \<Rightarrow> request list \<Rightarrow> NewsRawItem list list \<times> request list" where
  "fetch_batches w [] reqs = ([], reqs)"
| "fetch_batches w (startId # rest) reqs =
     (case fetchNewsRawBatch w startId reqs of
        (batch, reqs') \<Rightarrow>
          (case fetch_batches w rest reqs' of
             (batches, reqs'') \<Rightarrow> (batch # batches, reqs'')))"

text \<open>
  Strings: \<^verbatim>\<open>toLowerCase\<close> on the letters A to Z (the other characters of a string
  stay as they are), \<^verbatim>\<open>hay.includes(needle)\<close> as the test for a contiguous sublist, and
  \<^verbatim>\<open>xs.slice(0, end)\<close>, where a negative \<^verbatim>\<open>end\<close> counts from the end of the array.
\<close>

definition toLowerCase :: "string \<Rightarrow> string" where
  "toLowerCase str =
     map (\<lambda>c. case map_of (zip ''ABCDEFGHIJKLMNOPQRSTUVWXYZ'' ''abcdefghijklmnopqrstuvwxyz'') c of
                Some l \<Rightarrow> l
              | None \<Rightarrow> c) str"

definition includes_str :: "string \<Rightarrow> string \<Rightarrow> bool" where
  "includes_str hay needle = sublist needle hay"

definition slice0 :: "'a list \<Rightarrow> int \<Rightarrow> 'a list" where
  "slice0 xs end = (if end < 0 then take (nat (int (length xs) + end)) xs else take (nat end) xs)"

text \<open>
  \<^verbatim>\<open>searchNews\<close>. The configured \<^verbatim>\<open>NEWS_STATIC_ARTICLE_LIMIT\<close> (default 100) is the
  parameter \<open>staticLimit\<close>. The loop runs \<^verbatim>\<open>i\<close> from 0 below \<^verbatim>\<open>numBatches\<close> and
  requests the batch that starts at \<^verbatim>\<open>i * 100\<close>.
\<close>

definition searchNews ::
  "int \<Rightarrow> server \<Rightarrow> string \<Rightarrow> int \<Rightarrow> request list \<Rightarrow> NewsRawItem list \<times> request list" where
  "searchNews staticLimit w query limit reqs =
     (let numBatches = \<lceil>real_of_int staticLimit / 100\<rceil> in
      case fetch_batches w (map (\<lambda>i. i * 100) [0..numBatches - 1]) reqs of
        (allBatches, reqs') \<Rightarrow>
          (let allItems = concat allBatches;
               queryLower = toLowerCase query;
               results = filter (\<lambda>item. includes_str (toLowerCase (title item)) queryLower
                                   \<or> includes_str (toLowerCase (article item)) queryLower) allItems
           in (slice0 results limit, reqs')))"

text \<open>
  \<^verbatim>\<open>fetchRecentNews\<close>. A failure of \<^verbatim>\<open>fetchMeta\<close> is not caught. The comparator of
  the sort is \<^verbatim>\<open>b.id - a.id\<close>: the stable sort on the negated id.
\<close>

definition fetchRecentNews ::
  "server \<Rightarrow> int \<Rightarrow> request list \<Rightarrow> (error + NewsRawItem list) \<times> request list" where
  "fetchRecentNews w limit reqs =
     (case fetchMeta w reqs of
        (Inl err, reqs') \<Rightarrow> (Inl err, reqs')
      | (Inr meta, reqs') \<Rightarrow>
          (let latestId = latest_id (news_raw (tables meta));
               batchSize = 100;
               numBatches = \<lceil>real_of_int limit / real_of_int batchSize\<rceil>;
               allRawIds = map (\<lambda>i. latestId - i * batchSize) [0..numBatches - 1]
           in case fetch_batches w allRawIds reqs' of
             (batches, reqs'') \<Rightarrow>
               (Inr (slice0 (sort_key (\<lambda>a. - id_raw a) (concat batches)) limit), reqs'')))"

section \<open>Client accessors (client-api.js)\<close>

text \<open>
  \<^verbatim>\<open>fetchNewsRawByIds\<close> of the browser client (the module that the renderer imports as
  \<^verbatim>\<open>./client-api.js\<close>). It computes the batch id inline as
  \<^verbatim>\<open>Math.floor(id / 100) * 100\<close>, requests each batch with \<^verbatim>\<open>fetch\<close> itself, goes on
  to the next batch on a response that is not ok (\<^verbatim>\<open>continue\<close>) and on a rejection
  (the \<^verbatim>\<open>catch\<close> inside the loop), and ends with the same sort as the build-time
  function.
\<close>

fun fetch_groups_client ::
  "server \<Rightarrow> (int \<times> int list) list \<Rightarrow> NewsRawItem list \<Rightarrow> request list
     \<Rightarrow> NewsRawItem list \<times> request list" where
  "fetch_groups_client w [] results reqs = (results, reqs)"
| "fetch_groups_client w ((batchId, idsInBatch) # rest) results reqs =
     (case news_raw_json w batchId of
        Rejected \<Rightarrow> fetch_groups_client w rest results (reqs @ [GetNewsRaw batchId])
      | Http status batch \<Rightarrow>
          if \<not> ok status then fetch_groups_client w rest results (reqs @ [GetNewsRaw batchId])
          else fetch_groups_client w rest
                 (results @ filter (\<lambda>item. id_raw item \<in> set idsInBatch) batch)
                 (reqs @ [GetNewsRaw batchId]))"

definition fetchNewsRawByIds_client ::
  "server \<Rightarrow> int list \<Rightarrow> request list \<Rightarrow> NewsRawItem list \<times> request list" where
  "fetchNewsRawByIds_client w ids reqs =
     (if length ids = 0 then ([], reqs)
      else case fetch_groups_client w (batchGroups ids) [] reqs of
        (results, reqs') \<Rightarrow> (sort_key (orderKey (idOrder ids)) results, reqs'))"

section \<open>Build-time accessors with caches (src/lib/utils.ts)\<close>

text \<open>
  The module-level maps \<^verbatim>\<open>newsRawBatchCache\<close> and \<^verbatim>\<open>newsArticleCache\<close>, and the log
  of the requests, are the state that the cached accessors read and return updated.
\<close>

record caches =
  newsRawBatchCache :: "int \<rightharpoonup> NewsRawItem list"
  newsArticleCache :: "int \<rightharpoonup> NewsArticle list"
  requests :: "request list"

text \<open>\<^verbatim>\<open>fetchFileUncached\<close>: throws on a response that is not ok, stores nothing.\<close>

definition fetchFileUncached :: "'a response \<Rightarrow> request \<Rightarrow> caches \<Rightarrow> (error + 'a) \<times> caches" where
  "fetchFileUncached resp file s =
     (case resp of
        Rejected \<Rightarrow> (Inl FetchRejected, s\<lparr>requests := requests s @ [file]\<rparr>)
      | Http status data \<Rightarrow>
          if \<not> ok status then (Inl (HttpError status), s\<lparr>requests := requests s @ [file]\<rparr>)
          else (Inr data, s\<lparr>requests := requests s @ [file]\<rparr>))"

text \<open>
  \<^verbatim>\<open>fetchNewsRawBatch\<close> with the cache: \<^verbatim>\<open>newsRawBatchCache.set\<close> stands inside the
  \<^verbatim>\<open>try\<close>, after the awaited fetch; the \<^verbatim>\<open>catch\<close> returns the empty array.
\<close>

definition fetchNewsRawBatch_cached :: "server \<Rightarrow> int \<Rightarrow> caches \<Rightarrow> NewsRawItem list \<times> caches" where
  "fetchNewsRawBatch_cached w startId s =
     (let batchStart = getBatchId startId in
      case newsRawBatchCache s batchStart of
        Some cached \<Rightarrow> (cached, s)
      | None \<Rightarrow>
          (case fetchFileUncached (news_raw_json w batchStart) (GetNewsRaw batchStart) s of
             (Inr result, s') \<Rightarrow>
               (result, s'\<lparr>newsRawBatchCache := (newsRawBatchCache s')(batchStart \<mapsto> result)\<rparr>)
           | (Inl err, s') \<Rightarrow> ([], s')))"

text \<open>
  \<^verbatim>\<open>fetchNewsArticleById\<close> with the cache: the lookup is
  \<^verbatim>\<open>newsArticleCache.has(batchStart)\<close>, the store is \<^verbatim>\<open>newsArticleCache.set(id, articles)\<close>,
  done when the article was found.
\<close>

definition fetchNewsArticleById_cached :: "server \<Rightarrow> int \<Rightarrow> caches \<Rightarrow> NewsArticle option \<times> caches" where
  "fetchNewsArticleById_cached w newsId s =
     (let batchStart = getBatchId newsId in
      case newsArticleCache s batchStart of
        Some cached \<Rightarrow> (find (\<lambda>a. id_art a = newsId) cached, s)
      | None \<Rightarrow>
          (case fetchFileUncached (news_articles_json w batchStart) (GetNewsArticles batchStart) s of
             (Inr fetched, s') \<Rightarrow>
               (case find (\<lambda>a. id_art a = newsId) fetched of
                  Some found \<Rightarrow>
                    (Some found, s'\<lparr>newsArticleCache := (newsArticleCache s')(newsId \<mapsto> fetched)\<rparr>)
                | None \<Rightarrow> (None, s'))
           | (Inl err, s') \<Rightarrow> (None, s')))"

section \<open>Reference store (reference/api.ts, reference/store.ts)\<close>

text \<open>
  \<^verbatim>\<open>fetchNewsRawBatch\<close> of reference/api.ts throws on a response that is not ok.
\<close>

definition fetchNewsRawBatch_ref ::
  "server \<Rightarrow> int \<Rightarrow> request list \<Rightarrow> (error + NewsRawItem list) \<times> request list" where
  "fetchNewsRawBatch_ref w startId reqs =
     (let batchStart = \<lfloor>real_of_int startId / 100\<rfloor> * 100 in
      case news_raw_json w batchStart of
        Rejected \<Rightarrow> (Inl FetchRejected, reqs @ [GetNewsRaw batchStart])
      | Http status body \<Rightarrow>
          if \<not> ok status then (Inl (HttpError status), reqs @ [GetNewsRaw batchStart])
          else (Inr body, reqs @ [GetNewsRaw batchStart]))"

text \<open>
  The elements of a \<^verbatim>\<open>Set\<close>, and the keys of a \<^verbatim>\<open>Map\<close>, are iterated in the order
  of their first insertion: \<open>Set_add\<close> is \<^verbatim>\<open>add\<close>, which leaves a set that has the
  element as it is, and \<open>first_seen xs\<close> is \<^verbatim>\<open>Array.from(new Set(xs))\<close>.
  \<^verbatim>\<open>Promise.all\<close> rejects when one of the promises rejects (here with the first rejection
  in the order of the array; the store does not look at it).
\<close>

definition Set_add :: "'a list \<Rightarrow> 'a \<Rightarrow> 'a list" where
  "Set_add s x = (if x \<in> set s then s else s @ [x])"

definition first_seen :: "'a list \<Rightarrow> 'a list" where
  "first_seen xs = foldl Set_add [] xs"

fun fetch_all_ref ::
  "server \<Rightarrow> int list \<Rightarrow> request list \<Rightarrow> (error + NewsRawItem list) list \<times> request list" where
  "fetch_all_ref w [] reqs = ([], reqs)"
| "fetch_all_ref w (batchId # rest) reqs =
     (case fetchNewsRawBatch_ref w batchId reqs of
        (r, reqs') \<Rightarrow>
          (case fetch_all_ref w rest reqs' of
             (rs, reqs'') \<Rightarrow> (r # rs, reqs'')))"

fun Promise_all :: "(error + 'a) list \<Rightarrow> error + 'a list" where
  "Promise_all [] = Inr []"
| "Promise_all (Inl err # rs) = Inl err"
| "Promise_all (Inr x # rs) = (case Promise_all rs of Inl err \<Rightarrow> Inl err | Inr xs \<Rightarrow> Inr (x # xs))"

text \<open>
  \<^verbatim>\<open>fetchNewsRaw\<close> of the store. Its cache \<^verbatim>\<open>newsRawCache\<close> maps the id of an item to
  the item. The \<^verbatim>\<open>try\<close> spans the joint await of the batches, the update of the cache
  and the return; the \<^verbatim>\<open>catch\<close> returns the empty array and leaves the store as it was.
\<close>

definition fetchNewsRaw_store ::
  "server \<Rightarrow> int list \<Rightarrow> (int \<rightharpoonup> NewsRawItem) \<Rightarrow> request list
     \<Rightarrow> NewsRawItem list \<times> (int \<rightharpoonup> NewsRawItem) \<times> request list" where
  "fetchNewsRaw_store w ids newsRawCache reqs =
     (let uncachedIds = filter (\<lambda>newsId. newsRawCache newsId = None) ids in
      if length uncachedIds = 0 then (List.map_filter newsRawCache ids, newsRawCache, reqs)
      else
        (let batchIds = first_seen (map getBatchId uncachedIds) in
         case fetch_all_ref w batchIds reqs of
           (rs, reqs') \<Rightarrow>
             (case Promise_all rs of
                Inl err \<Rightarrow> ([], newsRawCache, reqs')
              | Inr batches \<Rightarrow>
                  (let cache = fold (\<lambda>item c. c(id_raw item \<mapsto> item)) (concat batches) newsRawCache
                   in (List.map_filter cache ids, cache, reqs')))))"

section \<open>Responses whose body cannot be read\<close>

text \<open>
  A response can arrive with its status and still fail while its body is read or decoded
  (the connection is lost, or the body is not JSON): \<^verbatim>\<open>response.json()\<close> rejects then.
  Here the body of a response is \<open>Some items\<close> when it decodes and \<open>None\<close> when
  \<^verbatim>\<open>response.json()\<close> rejects. On a server all of whose bodies decode, the functions of
  this section are the functions above (lemmas \<open>fetchNewsRawBatch_wire_readable\<close>,
  \<open>fetchNewsRawById_wire_readable\<close>, \<open>fetchNewsRawBatch_cached_wire_readable\<close>).

  \<^verbatim>\<open>fetchNewsRawBatch\<close> of src/lib/api.ts ends its \<^verbatim>\<open>try\<close> with
  \<^verbatim>\<open>return response.json()\<close>: the promise is returned without \<^verbatim>\<open>await\<close>, so its
  rejection is not caught by the \<^verbatim>\<open>catch\<close> and the call throws. \<^verbatim>\<open>fetchNewsRawById\<close>
  awaits the batch outside any \<^verbatim>\<open>try\<close>. \<^verbatim>\<open>fetchFileUncached\<close> of src/lib/utils.ts
  returns \<^verbatim>\<open>await response.json()\<close> and throws; the cached \<^verbatim>\<open>fetchNewsRawBatch\<close>
  catches every failure of it. \<^verbatim>\<open>fetchNewsRawById\<close> of the client awaits
  \<^verbatim>\<open>response.json()\<close> inside its \<^verbatim>\<open>try\<close> and returns \<^verbatim>\<open>null\<close> from the \<^verbatim>\<open>catch\<close>.
\<close>

definition fetchNewsRawBatch_wire ::
  "(int \<Rightarrow> NewsRawItem list option response) \<Rightarrow> int \<Rightarrow> request list
     \<Rightarrow> (error + NewsRawItem list) \<times> request list" where
  "fetchNewsRawBatch_wire net startId reqs =
     (let batchStart = getBatchId startId in
      case net batchStart of
        Rejected \<Rightarrow> (Inr [], reqs @ [GetNewsRaw batchStart])
      | Http status body \<Rightarrow>
          if \<not> ok status then (Inr [], reqs @ [GetNewsRaw batchStart])
          else (case body of
                  None \<Rightarrow> (Inl BodyFailed, reqs @ [GetNewsRaw batchStart])
                | Some items \<Rightarrow> (Inr items, reqs @ [GetNewsRaw batchStart])))"

definition fetchNewsRawById_wire ::
  "(int \<Rightarrow> NewsRawItem list option response) \<Rightarrow> int \<Rightarrow> request list
     \<Rightarrow> (error + NewsRawItem option) \<times> request list" where
  "fetchNewsRawById_wire net newsId reqs =
     (case fetchNewsRawBatch_wire net newsId reqs of
        (Inl err, reqs') \<Rightarrow> (Inl err, reqs')
      | (Inr batch, reqs') \<Rightarrow> (Inr (find (\<lambda>item. id_raw item = newsId) batch), reqs'))"

definition fetchFileUncached_wire ::
  "'a option response \<Rightarrow> request \<Rightarrow> caches \<Rightarrow> (error + 'a) \<times> caches" where
  "fetchFileUncached_wire resp file s =
     (case resp of
        Rejected \<Rightarrow> (Inl FetchRejected, s\<lparr>requests := requests s @ [file]\<rparr>)
      | Http status body \<Rightarrow>
          if \<not> ok status then (Inl (HttpError status), s\<lparr>requests := requests s @ [file]\<rparr>)
          else (case body of
                  None \<Rightarrow> (Inl BodyFailed, s\<lparr>requests := requests s @ [file]\<rparr>)
                | Some data \<Rightarrow> (Inr data, s\<lparr>requests := requests s @ [file]\<rparr>)))"

definition fetchNewsRawBatch_cached_wire ::
  "(int \<Rightarrow> NewsRawItem list option response) \<Rightarrow> int \<Rightarrow> caches \<Rightarrow> NewsRawItem list \<times> caches" where
  "fetchNewsRawBatch_cached_wire net startId s =
     (let batchStart = getBatchId startId in
      case newsRawBatchCache s batchStart of
        Some cached \<Rightarrow> (cached, s)
      | None \<Rightarrow>
          (case fetchFileUncached_wire (net batchStart) (GetNewsRaw batchStart) s of
             (Inr result, s') \<Rightarrow>
               (result, s'\<lparr>newsRawBatchCache := (newsRawBatchCache s')(batchStart \<mapsto> result)\<rparr>)
           | (Inl err, s') \<Rightarrow> ([], s')))"

definition fetchNewsRawById_cached_wire ::
  "(int \<Rightarrow> NewsRawItem list option response) \<Rightarrow> int \<Rightarrow> caches \<Rightarrow> NewsRawItem option \<times> caches" where
  "fetchNewsRawById_cached_wire net newsId s =
     (case fetchNewsRawBatch_cached_wire net newsId s of
        (batch, s') \<Rightarrow> (find (\<lambda>item. id_raw item = newsId) batch, s'))"

definition fetchNewsRawById_client_wire ::
  "(int \<Rightarrow> NewsRawItem list option response) \<Rightarrow> int \<Rightarrow> request list
     \<Rightarrow> NewsRawItem option \<times> request list" where
  "fetchNewsRawById_client_wire net newsId reqs =
     (let batchId = \<lfloor>real_of_int newsId / 100\<rfloor> * 100 in
      case net batchId of
        Rejected \<Rightarrow> (None, reqs @ [GetNewsRaw batchId])
      | Http status body \<Rightarrow>
          if \<not> ok status then (None, reqs @ [GetNewsRaw batchId])
          else (case body of
                  None \<Rightarrow> (None, reqs @ [GetNewsRaw batchId])
                | Some batch \<Rightarrow>
                    (find (\<lambda>item. id_raw item = newsId) batch, reqs @ [GetNewsRaw batchId])))"

section \<open>Notions used in the statements and proofs\<close>

text \<open>
  \<open>delivered w b\<close> is the array that \<open>fetchNewsRawBatch\<close> returns for the batch of \<open>b\<close>;
  \<open>pos ids i\<close> is the sort key of an item with id \<open>i\<close>; \<open>gathered\<close> is the array
  \<^verbatim>\<open>results\<close> before the sort, and \<open>in_input_order\<close> lists, for each requested id in
  the order of the input (an id that is repeated counts at its last place), the items of
  its batch that carry it.
\<close>

definition delivered :: "server \<Rightarrow> int \<Rightarrow> NewsRawItem list" where
  "delivered w b = fst (fetchNewsRawBatch w b [])"

definition pos :: "int list \<Rightarrow> int \<Rightarrow> nat" where
  "pos ids i = (case idOrder ids i of None \<Rightarrow> 0 | Some index \<Rightarrow> index)"

definition gathered :: "server \<Rightarrow> int list \<Rightarrow> NewsRawItem list" where
  "gathered w ids =
     concat (map (\<lambda>(b, g). filter (\<lambda>item. id_raw item \<in> set g) (delivered w b)) (batchGroups ids))"

definition in_input_order :: "server \<Rightarrow> int list \<Rightarrow> NewsRawItem list" where
  "in_input_order w ids =
     concat (map (\<lambda>i. filter (\<lambda>item. id_raw item = i) (delivered w i)) (remdups ids))"

section \<open>Concrete data for the examples\<close>

definition rawItem :: "int \<Rightarrow> string \<Rightarrow> string \<Rightarrow> NewsRawItem" where
  "rawItem n t a =
     \<lparr>id_raw = n, source = ''1'', title = t, article = a, cats = [], imgUrl = [],
      cluster_id = 0, created_at = [], guid = [], objective = 7\<rparr>"

definition cluster :: "int \<Rightarrow> NewsArticle" where
  "cluster n =
     \<lparr>id_art = n, title_art = [], short_desc = [], articles = [], created_at_art = [],
      cats_art = []\<rparr>"

definition metaWith :: "int \<Rightarrow> Meta" where
  "metaWith latest =
     \<lparr>generated_at = [],
      tables = \<lparr>news_articles = \<lparr>latest_id = 0\<rparr>, news_raw = \<lparr>latest_id = latest\<rparr>,
                news_sources = \<lparr>latest_id = 0\<rparr>, tag_articles = \<lparr>latest_id = 0\<rparr>,
                tags = \<lparr>latest_id = 0\<rparr>\<rparr>\<rparr>"

definition demoServer :: server where
  "demoServer =
     \<lparr>meta_json = Http 200 (metaWith 202),
      news_raw_json = (\<lambda>b.
        if b = 0 then Http 200 [rawItem 10 ''Alpha'' ''first'', rawItem 30 ''Beta'' ''second'']
        else if b = 100 then Http 200 [rawItem 120 ''Gamma'' ''third'', rawItem 198 ''Delta'' ''fourth'',
                                        rawItem 199 ''Epsilon'' ''fifth'']
        else if b = 200 then Http 200 [rawItem 200 ''Zeta'' ''sixth'', rawItem 201 ''Eta'' ''seventh'',
                                        rawItem 202 ''Xyz report'' ''eighth'']
        else if b = 400 then Rejected
        else if b = 500 then Http 200 []
        else Http 404 []),
      news_articles_json = (\<lambda>b.
        if b = 100 then Http 200 [cluster 150, cluster 151] else Http 404 [])\<rparr>"

definition warmCaches :: caches where
  "warmCaches =
     \<lparr>newsRawBatchCache = [0 \<mapsto> [rawItem 10 ''Alpha'' ''first'', rawItem 30 ''Beta'' ''second'']],
      newsArticleCache = Map.empty, requests = [GetNewsRaw 0]\<rparr>"

definition emptyCaches :: caches where
  "emptyCaches = \<lparr>newsRawBatchCache = Map.empty, newsArticleCache = Map.empty, requests = []\<rparr>"

definition brokenNet :: "int \<Rightarrow> NewsRawItem list option response" where
  "brokenNet b = (if b = 300 then Http 200 None else Http 404 None)"

section \<open>Auxiliary lemmas\<close>

lemma getBatchId_div: "getBatchId n = n div 100 * 100"
  by (simp add: getBatchId_def floor_divide_of_int_eq [of n 100, simplified])

lemma getBatchId_idem: "getBatchId (getBatchId n) = getBatchId n"
  by (simp add: getBatchId_div)

lemma getBatchId_offset:
  assumes "0 \<le> k" "k < 100"
  shows "getBatchId (getBatchId n + k) = getBatchId n"
proof -
  have "(n div 100 * 100 + k) div 100 = n div 100"
    using assms by simp
  then show ?thesis
    by (simp add: getBatchId_div)
qed

lemma fetchNewsRawBatch_eq:
  "fetchNewsRawBatch w b reqs = (delivered w b, reqs @ [GetNewsRaw (getBatchId b)])"
  by (simp add: delivered_def fetchNewsRawBatch_def Let_def split: response.splits)

lemma fetch_groups_eq:
  "fetch_groups w groups results reqs =
     (results @ concat (map (\<lambda>(b, g). filter (\<lambda>item. id_raw item \<in> set g) (delivered w b)) groups),
      reqs @ map (\<lambda>(b, g). GetNewsRaw (getBatchId b)) groups)"
  by (induction groups arbitrary: results reqs) (auto simp: fetchNewsRawBatch_eq)

lemma first_seen_Nil [simp]: "first_seen [] = []"
  by (simp add: first_seen_def)

lemma first_seen_step: "first_seen (xs @ [x]) = Set_add (first_seen xs) x"
  by (simp add: first_seen_def)

lemma set_first_seen [simp]: "set (first_seen xs) = set xs"
  by (induction xs rule: rev_induct) (auto simp: first_seen_step Set_add_def)

lemma first_seen_snoc:
  "first_seen (xs @ [x]) = (if x \<in> set xs then first_seen xs else first_seen xs @ [x])"
  by (simp add: first_seen_step Set_add_def)

lemma distinct_first_seen [simp]: "distinct (first_seen xs)"
  by (induction xs rule: rev_induct) (simp_all add: first_seen_snoc)

lemma Map_push_append:
  "k \<notin> fst ` set m \<Longrightarrow> Map_push (m @ m') k v = m @ Map_push m' k v"
  by (induction m) auto

lemma Map_push_map:
  "distinct bs \<Longrightarrow>
   Map_push (map (\<lambda>b. (b, F b)) bs) k v = map (\<lambda>b. (b, if b = k then F b @ [v] else F b)) bs"
  by (induction bs) auto

lemma batchGroups_snoc: "batchGroups (ids @ [x]) = group_step (batchGroups ids) x"
  by (simp add: batchGroups_def)

lemma batchGroups_eq:
  "batchGroups ids =
     map (\<lambda>b. (b, filter (\<lambda>i. getBatchId i = b) ids)) (first_seen (map getBatchId ids))"
proof (induction ids rule: rev_induct)
  case Nil
  show ?case by (simp add: batchGroups_def)
next
  case (snoc x ids)
  let ?bs = "first_seen (map getBatchId ids)"
  let ?F = "\<lambda>b. filter (\<lambda>i. getBatchId i = b) ids"
  show ?case
  proof (cases "getBatchId x \<in> getBatchId ` set ids")
    case True
    then show ?thesis
      by (simp add: batchGroups_snoc snoc.IH group_step_def Map_has_def image_image
            first_seen_snoc Map_push_map)
  next
    case False
    then have ne: "\<And>i. i \<in> set ids \<Longrightarrow> getBatchId x \<noteq> getBatchId i"
      by (metis imageI)
    then have "?F (getBatchId x) = []"
      by (metis (mono_tags, lifting) filter_False)
    moreover have "map (\<lambda>b. (b, filter (\<lambda>i. getBatchId i = b) ids @ (if getBatchId x = b then [x] else []))) ?bs
        = map (\<lambda>b. (b, ?F b)) ?bs"
      using False by (intro map_cong) auto
    ultimately show ?thesis
      using False ne
      by (simp add: batchGroups_snoc snoc.IH group_step_def Map_has_def image_image
            first_seen_snoc Map_set_empty_def Map_push_append)
  qed
qed


lemma idOrder_snoc: "idOrder (ids @ [x]) = (idOrder ids)(x \<mapsto> length ids)"
  by (simp add: idOrder_def)

lemma idOrder_Some:
  "i \<in> set ids \<Longrightarrow> \<exists>n. idOrder ids i = Some n \<and> n < length ids \<and> ids ! n = i"
proof (induction ids rule: rev_induct)
  case Nil
  then show ?case by simp
next
  case (snoc x ids)
  show ?case
  proof (cases "i = x")
    case True
    then show ?thesis by (simp add: idOrder_snoc)
  next
    case False
    with snoc obtain n where "idOrder ids i = Some n" "n < length ids" "ids ! n = i"
      by auto
    with False show ?thesis
      by (simp add: idOrder_snoc nth_append)
  qed
qed

lemma orderKey_pos: "orderKey (idOrder ids) a = pos ids (id_raw a)"
  by (simp add: orderKey_def pos_def)

lemma pos_less: "i \<in> set ids \<Longrightarrow> pos ids i < length ids"
  using idOrder_Some [of i ids] by (auto simp: pos_def)

lemma nth_pos: "i \<in> set ids \<Longrightarrow> ids ! pos ids i = i"
  using idOrder_Some [of i ids] by (auto simp: pos_def)

lemma pos_inj: "i \<in> set ids \<Longrightarrow> j \<in> set ids \<Longrightarrow> pos ids i = pos ids j \<Longrightarrow> i = j"
  by (metis nth_pos)

lemma pos_snoc: "pos (ids @ [x]) i = (if i = x then length ids else pos ids i)"
  by (simp add: pos_def idOrder_snoc)

lemma remdups_snoc: "remdups (xs @ [x]) = filter (\<lambda>i. i \<noteq> x) (remdups xs) @ [x]"
  by (induction xs) auto

lemma sorted_pos_remdups: "sorted (map (pos ids) (remdups ids))"
proof (induction ids rule: rev_induct)
  case Nil
  show ?case by simp
next
  case (snoc x ids)
  have eq: "remdups (ids @ [x]) = filter (\<lambda>i. i \<noteq> x) (remdups ids) @ [x]"
    by (rule remdups_snoc)
  let ?front = "filter (\<lambda>i. i \<noteq> x) (remdups ids)"
  have same: "map (pos (ids @ [x])) ?front = map (pos ids) ?front"
    by (intro map_cong) (auto simp: pos_snoc)
  have "sorted (map (pos ids) ?front)"
    using snoc.IH by (rule sorted_filter)
  then have front: "sorted (map (pos (ids @ [x])) ?front)"
    unfolding same .
  have last: "pos (ids @ [x]) i \<le> pos (ids @ [x]) x" if "i \<in> set ?front" for i
    using that pos_less [of i ids] by (simp add: pos_snoc)
  show ?case
    unfolding eq using front last by (simp add: sorted_append)
qed


lemma concat_only:
  "distinct bs \<Longrightarrow> concat (map (\<lambda>b. if b = k then L else []) bs) = (if k \<in> set bs then L else [])"
  by (induction bs) auto

lemma delivered_getBatchId: "delivered w (getBatchId i) = delivered w i"
  by (simp add: delivered_def fetchNewsRawBatch_def getBatchId_idem)

lemma filter_group:
  "filter (\<lambda>item. id_raw item = i)
     (filter (\<lambda>item. id_raw item \<in> set (filter (\<lambda>j. getBatchId j = b) ids)) (delivered w b)) =
   (if b = getBatchId i \<and> i \<in> set ids then filter (\<lambda>item. id_raw item = i) (delivered w i) else [])"
proof (cases "b = getBatchId i \<and> i \<in> set ids")
  case True
  then have "filter (\<lambda>item. id_raw item \<in> set ids \<and> getBatchId (id_raw item) = b \<and> id_raw item = i) (delivered w i)
      = filter (\<lambda>item. id_raw item = i) (delivered w i)"
    by (intro filter_cong refl) auto
  with True show ?thesis
    by (simp add: delivered_getBatchId conj_commute conj_left_commute)
next
  case False
  then show ?thesis
    by (auto simp: filter_empty_conv)
qed

lemma filter_gathered:
  "filter (\<lambda>item. id_raw item = i) (gathered w ids) =
     (if i \<in> set ids then filter (\<lambda>item. id_raw item = i) (delivered w i) else [])"
proof -
  let ?bs = "first_seen (map getBatchId ids)"
  have "filter (\<lambda>item. id_raw item = i) (gathered w ids) =
        concat (map (\<lambda>b. filter (\<lambda>item. id_raw item = i)
           (filter (\<lambda>item. id_raw item \<in> set (filter (\<lambda>j. getBatchId j = b) ids)) (delivered w b))) ?bs)"
    by (simp add: gathered_def batchGroups_eq filter_concat o_def)
  also have "\<dots> = concat (map (\<lambda>b. if b = getBatchId i
        then (if i \<in> set ids then filter (\<lambda>item. id_raw item = i) (delivered w i) else []) else []) ?bs)"
    unfolding filter_group by (intro arg_cong [where f = concat] map_cong refl) simp
  also have "\<dots> = (if i \<in> set ids then filter (\<lambda>item. id_raw item = i) (delivered w i) else [])"
    by (simp add: concat_only)
  finally show ?thesis .
qed

lemma filter_in_input_order:
  "filter (\<lambda>item. id_raw item = i) (in_input_order w ids) =
     (if i \<in> set ids then filter (\<lambda>item. id_raw item = i) (delivered w i) else [])"
proof -
  have "filter (\<lambda>item. id_raw item = i) (in_input_order w ids) =
        concat (map (\<lambda>j. if j = i then filter (\<lambda>item. id_raw item = i) (delivered w i) else [])
          (remdups ids))"
    unfolding in_input_order_def filter_concat map_map o_def
    by (intro arg_cong [where f = concat] map_cong refl) (auto intro: filter_cong)
  then show ?thesis
    by (simp add: concat_only)
qed

lemma id_gathered: "item \<in> set (gathered w ids) \<Longrightarrow> id_raw item \<in> set ids"
  by (auto simp: gathered_def batchGroups_eq)

lemma id_in_input_order: "item \<in> set (in_input_order w ids) \<Longrightarrow> id_raw item \<in> set ids"
  by (auto simp: in_input_order_def)

lemma mset_gathered: "mset (gathered w ids) = mset (in_input_order w ids)"
proof (rule multiset_eqI)
  fix a
  have "filter (\<lambda>item. a = item) xs = filter (\<lambda>item. a = item) (filter (\<lambda>item. id_raw item = id_raw a) xs)"
    for xs :: "NewsRawItem list"
    by (auto intro: filter_cong)
  then have "count (mset xs) a = length (filter (\<lambda>item. a = item) (filter (\<lambda>item. id_raw item = id_raw a) xs))"
    for xs :: "NewsRawItem list"
    by (simp add: count_mset count_list_eq_length_filter)
  then show "count (mset (gathered w ids)) a = count (mset (in_input_order w ids)) a"
    by (simp only: filter_gathered filter_in_input_order)
qed

lemma sorted_concat_chunks:
  fixes p :: "'a \<Rightarrow> nat"
  assumes "sorted (map p js)" and "\<And>j x. x \<in> set (F j) \<Longrightarrow> key x = p j"
  shows "sorted (concat (map (\<lambda>j. map key (F j)) js))"
  using assms(1)
proof (induction js)
  case Nil
  show ?case by simp
next
  case (Cons j js)
  have "map key (F j) = map (\<lambda>_. p j) (F j)"
    by (intro map_cong refl) (simp add: assms(2))
  then have chunk: "map key (F j) = replicate (length (F j)) (p j)"
    by (simp add: map_replicate_const)
  have "sorted (concat (map (\<lambda>j. map key (F j)) js))"
    using Cons by simp
  moreover have "p j \<le> key y" if "j' \<in> set js" "y \<in> set (F j')" for j' y
    using that Cons.prems by (simp add: assms(2))
  ultimately show ?case
    by (auto simp: sorted_append chunk)
qed

lemma sorted_in_input_order: "sorted (map (orderKey (idOrder ids)) (in_input_order w ids))"
proof -
  have "sorted (concat (map (\<lambda>i. map (orderKey (idOrder ids))
           (filter (\<lambda>item. id_raw item = i) (delivered w i))) (remdups ids)))"
    by (rule sorted_concat_chunks [where p = "pos ids"])
       (simp_all add: sorted_pos_remdups orderKey_pos)
  then show ?thesis
    by (simp add: in_input_order_def map_concat o_def)
qed

lemma sort_gathered:
  "sort_key (orderKey (idOrder ids)) (gathered w ids) = in_input_order w ids"
proof (rule properties_for_sort_key)
  show "mset (in_input_order w ids) = mset (gathered w ids)"
    by (simp add: mset_gathered)
  show "sorted (map (orderKey (idOrder ids)) (in_input_order w ids))"
    by (rule sorted_in_input_order)
  fix k
  assume k: "k \<in> set (in_input_order w ids)"
  then have kin: "id_raw k \<in> set ids"
    by (rule id_in_input_order)
  have key: "(orderKey (idOrder ids) k = orderKey (idOrder ids) x) = (id_raw x = id_raw k)"
    if "id_raw x \<in> set ids" for x
    using that kin by (auto simp: orderKey_pos dest: pos_inj)
  have "filter (\<lambda>x. orderKey (idOrder ids) k = orderKey (idOrder ids) x) (in_input_order w ids)
        = filter (\<lambda>x. id_raw x = id_raw k) (in_input_order w ids)"
    by (intro filter_cong refl key id_in_input_order)
  moreover have "filter (\<lambda>x. orderKey (idOrder ids) k = orderKey (idOrder ids) x) (gathered w ids)
        = filter (\<lambda>x. id_raw x = id_raw k) (gathered w ids)"
    by (intro filter_cong refl key id_gathered)
  ultimately show "filter (\<lambda>x. orderKey (idOrder ids) k = orderKey (idOrder ids) x) (in_input_order w ids)
        = filter (\<lambda>x. orderKey (idOrder ids) k = orderKey (idOrder ids) x) (gathered w ids)"
    by (simp only: filter_gathered filter_in_input_order)
qed

lemma requests_batchGroups:
  "map (\<lambda>(b, g). GetNewsRaw (getBatchId b)) (batchGroups ids) =
     map GetNewsRaw (first_seen (map getBatchId ids))"
proof -
  have "map (\<lambda>b. GetNewsRaw (getBatchId b)) (first_seen (map getBatchId ids)) =
        map GetNewsRaw (first_seen (map getBatchId ids))"
    by (intro map_cong refl) (auto simp: getBatchId_idem)
  then show ?thesis
    by (simp add: batchGroups_eq o_def)
qed

lemma fetchNewsRawByIds_eq:
  "fetchNewsRawByIds w ids reqs =
     (in_input_order w ids, reqs @ map GetNewsRaw (first_seen (map getBatchId ids)))"
proof (cases "ids = []")
  case True
  then show ?thesis
    by (simp add: fetchNewsRawByIds_def in_input_order_def)
next
  case False
  then show ?thesis
    by (simp add: fetchNewsRawByIds_def fetch_groups_eq requests_batchGroups
          gathered_def [symmetric] sort_gathered)
qed

lemma fetch_groups_client_same:
  assumes "\<And>b g. (b, g) \<in> set groups \<Longrightarrow> getBatchId b = b"
  shows "fetch_groups_client w groups results reqs = fetch_groups w groups results reqs"
  using assms
proof (induction groups arbitrary: results reqs)
  case Nil
  show ?case by simp
next
  case (Cons bg groups)
  obtain b g where bg: "bg = (b, g)"
    by (cases bg)
  have b: "getBatchId b = b"
    using Cons.prems [of b g] by (simp add: bg)
  have rest: "fetch_groups_client w groups r q = fetch_groups w groups r q" for r q
    using Cons.prems by (intro Cons.IH) auto
  show ?case
    by (simp add: bg fetchNewsRawBatch_def b rest split: response.splits)
qed

lemma batchGroups_keys: "(b, g) \<in> set (batchGroups ids) \<Longrightarrow> getBatchId b = b"
  by (auto simp: batchGroups_eq getBatchId_idem)

lemma fetchNewsRawByIds_client_eq:
  "fetchNewsRawByIds_client w ids reqs = fetchNewsRawByIds w ids reqs"
  by (simp add: fetchNewsRawByIds_client_def fetchNewsRawByIds_def
        fetch_groups_client_same [OF batchGroups_keys])

lemma chunk_unique:
  assumes "distinct (map id_raw xs)"
  shows "map id_raw (filter (\<lambda>item. id_raw item = i) xs) = (if i \<in> id_raw ` set xs then [i] else [])"
  using assms by (induction xs) (auto simp: filter_empty_conv)

lemma ids_in_input_order:
  assumes "\<And>b. distinct (map id_raw (delivered w b))"
  shows "map id_raw (in_input_order w ids) =
           filter (\<lambda>i. i \<in> id_raw ` set (delivered w i)) (remdups ids)"
proof -
  have "concat (map (\<lambda>i. map id_raw (filter (\<lambda>item. id_raw item = i) (delivered w i))) js)
          = filter (\<lambda>i. i \<in> id_raw ` set (delivered w i)) js" for js
    by (induction js) (simp_all add: chunk_unique [OF assms])
  then show ?thesis
    by (simp add: in_input_order_def map_concat o_def)
qed

lemma numBatches_eq: "\<lceil>real_of_int n / 100\<rceil> = (n + 99) div 100"
proof -
  have "\<lceil>real_of_int n / real_of_int 100\<rceil> = - (- n div 100)"
    by (rule ceiling_divide_eq_div)
  then show ?thesis by simp
qed

lemma fetchRecentNews_eval:
  "fetchRecentNews w limit reqs =
     (case fetchMeta w reqs of
        (Inl err, reqs') \<Rightarrow> (Inl err, reqs')
      | (Inr meta, reqs') \<Rightarrow>
          (case fetch_batches w
                  (map (\<lambda>i. latest_id (news_raw (tables meta)) - i * 100)
                     [0..(limit + 99) div 100 - 1]) reqs' of
             (batches, reqs'') \<Rightarrow>
               (Inr (slice0 (sort_key (\<lambda>a. - id_raw a) (concat batches)) limit), reqs'')))"
  by (simp add: fetchRecentNews_def Let_def numBatches_eq [symmetric] split: prod.splits sum.splits)

lemma searchNews_eval:
  "searchNews staticLimit w query limit reqs =
     (case fetch_batches w (map (\<lambda>i. i * 100) [0..(staticLimit + 99) div 100 - 1]) reqs of
        (allBatches, reqs') \<Rightarrow>
          (slice0 (filter (\<lambda>item. includes_str (toLowerCase (title item)) (toLowerCase query)
                                 \<or> includes_str (toLowerCase (article item)) (toLowerCase query))
                     (concat allBatches)) limit, reqs'))"
  by (simp add: searchNews_def Let_def numBatches_eq [symmetric] split: prod.splits)

lemma subseq_remdups: "subseq (remdups xs) xs"
  by (induction xs) auto

lemma demo_delivered:
  "fst (fetchNewsRawBatch demoServer b reqs) =
     (if getBatchId b = 0 then [rawItem 10 ''Alpha'' ''first'', rawItem 30 ''Beta'' ''second'']
      else if getBatchId b = 100 then [rawItem 120 ''Gamma'' ''third'', rawItem 198 ''Delta'' ''fourth'',
                                        rawItem 199 ''Epsilon'' ''fifth'']
      else if getBatchId b = 200 then [rawItem 200 ''Zeta'' ''sixth'', rawItem 201 ''Eta'' ''seventh'',
                                        rawItem 202 ''Xyz report'' ''eighth'']
      else [])"
  by (simp add: fetchNewsRawBatch_def demoServer_def ok_def Let_def)

lemma demo_unique: "distinct (map id_raw (fst (fetchNewsRawBatch demoServer b [])))"
  by (simp add: demo_delivered rawItem_def)


lemma fetchNewsRawByIds_degrades:
  assumes "i \<in> set ids" and "news_raw_json w (getBatchId i) = Http status body" and "ok status"
    and "item \<in> set body" and "id_raw item = i"
  shows "item \<in> set (fst (fetchNewsRawByIds w ids reqs))"
proof -
  have "delivered w i = body"
    using assms(2,3) by (simp add: delivered_def fetchNewsRawBatch_def)
  with assms(1,4,5) show ?thesis
    by (auto simp: fetchNewsRawByIds_eq in_input_order_def)
qed

lemma fetch_batches_eq:
  "fetch_batches w startIds reqs =
     (map (delivered w) startIds, reqs @ map (\<lambda>startId. GetNewsRaw (getBatchId startId)) startIds)"
  by (induction startIds arbitrary: reqs) (simp_all add: fetchNewsRawBatch_eq)

lemma searchNews_requests:
  "snd (searchNews staticLimit w query limit reqs) =
     reqs @ map (\<lambda>i. GetNewsRaw (i * 100)) [0..\<lceil>real_of_int staticLimit / 100\<rceil> - 1]"
  by (simp add: searchNews_eval numBatches_eq fetch_batches_eq o_def getBatchId_div)

lemma fetchNewsArticleById_cached_refetch:
  assumes "getBatchId newsId \<noteq> newsId" and "newsArticleCache s (getBatchId newsId) = None"
  shows "requests (snd (fetchNewsArticleById_cached w newsId
                         (snd (fetchNewsArticleById_cached w newsId s)))) =
           requests s @ [GetNewsArticles (getBatchId newsId), GetNewsArticles (getBatchId newsId)]"
  using assms
  by (auto simp: fetchNewsArticleById_cached_def fetchFileUncached_def Let_def
           split: response.splits option.splits)

lemma fetch_all_ref_eq:
  "fetch_all_ref w batchIds reqs =
     (map (\<lambda>b. fst (fetchNewsRawBatch_ref w b [])) batchIds,
      reqs @ map (\<lambda>b. GetNewsRaw (getBatchId b)) batchIds)"
proof (induction batchIds arbitrary: reqs)
  case Nil
  show ?case by simp
next
  case (Cons b batchIds)
  have "fetchNewsRawBatch_ref w b reqs =
          (fst (fetchNewsRawBatch_ref w b []), reqs @ [GetNewsRaw (getBatchId b)])"
    by (simp add: fetchNewsRawBatch_ref_def getBatchId_def Let_def split: response.splits)
  then show ?case
    by (simp add: Cons.IH)
qed

lemma Promise_all_rejects:
  "Inl e \<in> set rs \<Longrightarrow> \<exists>e'. Promise_all rs = Inl e'"
proof (induction rs)
  case Nil
  then show ?case by simp
next
  case (Cons r rs)
  then show ?case
    by (cases r) (auto split: sum.splits)
qed

lemma fetchNewsRaw_store_all_or_nothing:
  assumes "i \<in> set ids" and "newsRawCache i = None"
    and "news_raw_json w (getBatchId i) = Rejected
         \<or> (\<exists>status body. news_raw_json w (getBatchId i) = Http status body \<and> \<not> ok status)"
  shows "fst (fetchNewsRaw_store w ids newsRawCache reqs) = []"
proof -
  let ?uncached = "filter (\<lambda>newsId. newsRawCache newsId = None) ids"
  let ?batchIds = "first_seen (map getBatchId ?uncached)"
  have i: "i \<in> set ?uncached"
    using assms(1,2) by simp
  then have ne: "length ?uncached \<noteq> 0"
    by (metis length_0_conv empty_iff empty_set)
  obtain e where e: "fst (fetchNewsRawBatch_ref w (getBatchId i) []) = Inl e"
    using assms(3)
    by (auto simp: fetchNewsRawBatch_ref_def getBatchId_def [symmetric] getBatchId_idem Let_def)
  have "getBatchId i \<in> set ?batchIds"
    using i by simp
  then have "Inl e \<in> set (map (\<lambda>b. fst (fetchNewsRawBatch_ref w b [])) ?batchIds)"
    using e by (metis (no_types, lifting) image_eqI set_map)
  then obtain e' where "Promise_all (map (\<lambda>b. fst (fetchNewsRawBatch_ref w b [])) ?batchIds) = Inl e'"
    using Promise_all_rejects by blast
  with ne show ?thesis
    by (simp add: fetchNewsRaw_store_def fetch_all_ref_eq Let_def)
qed

lemma fetchRecentNews_single_batch:
  assumes "0 < limit" and "limit \<le> 100" and "meta_json w = Http status meta" and "ok status"
  shows "fetchRecentNews w limit reqs =
           (Inr (take (nat limit)
                  (sort_key (\<lambda>a. - id_raw a) (delivered w (latest_id (news_raw (tables meta)))))),
            reqs @ [GetMeta, GetNewsRaw (getBatchId (latest_id (news_raw (tables meta))))])"
proof -
  have "(limit + 99) div 100 = 1"
    using assms(1,2) by simp
  then show ?thesis
    using assms
    by (simp add: fetchRecentNews_eval fetchMeta_def fetchFile_def fetch_batches_eq slice0_def)
qed

lemma bitlen_le: "n < 2 ^ k \<Longrightarrow> bitlen n \<le> k"
proof (induction k arbitrary: n)
  case 0
  then show ?case by (simp add: bitlen.simps)
next
  case (Suc k)
  show ?case
  proof (cases "n = 0")
    case True
    then show ?thesis by (simp add: bitlen.simps)
  next
    case False
    have "n div 2 < 2 ^ k"
      using Suc.prems by simp
    then have "bitlen (n div 2) \<le> k"
      by (rule Suc.IH)
    with False show ?thesis
      by (simp add: bitlen.simps [of n])
  qed
qed

lemma bitlen_one: "bitlen 1 = 1"
  by (simp add: bitlen.simps)

lemma bitlen_pos: "0 < n \<Longrightarrow> 0 < bitlen n"
  by (simp add: bitlen.simps [of n])

lemma exponent2_le: "exponent2 a b \<le> int (bitlen a) - int (bitlen b)"
  by (simp add: exponent2_def Let_def)

lemma rne_one: "rne a 1 = a"
  by (simp add: rne_def)

lemma rne_exact: "0 < b \<Longrightarrow> b dvd a \<Longrightarrow> rne a b = a div b"
  by (simp add: rne_def Let_def)

lemma rne_error:
  assumes "0 < b"
  shows "\<bar>real (rne a b) - real a / real b\<bar> \<le> 1 / 2"
proof -
  let ?d = "a div b" and ?r = "a mod b"
  have "real a = real ?d * real b + real ?r"
    by (metis div_mult_mod_eq of_nat_add of_nat_mult)
  then have x: "real a / real b = real ?d + real ?r / real b"
    using assms by (simp add: field_simps)
  have rb: "real ?r < real b"
    using assms by simp
  consider "2 * ?r < b" | "b < 2 * ?r" | "2 * ?r = b"
    by linarith
  then show ?thesis
  proof cases
    case 1
    then have "real ?r / real b \<le> 1 / 2"
      using assms by (simp add: field_simps)
    with 1 show ?thesis
      by (simp add: rne_def Let_def x)
  next
    case 2
    then have "1 / 2 \<le> real ?r / real b" "real ?r / real b \<le> 1"
      using assms rb by (simp_all add: field_simps)
    with 2 show ?thesis
      by (simp add: rne_def Let_def x)
  next
    case 3
    then have "real ?r / real b = 1 / 2"
      using assms by (simp add: field_simps)
    with 3 show ?thesis
      by (simp add: rne_def Let_def x)
  qed
qed

lemma floor64_value64: "floor64 x = \<lfloor>value64 x\<rfloor>"
proof (cases x)
  case (Pair m s)
  show ?thesis
  proof (cases "0 \<le> s")
    case True
    then have "value64 (m, s) = real_of_int (m * 2 ^ nat s)"
      by (simp add: value64_def)
    then show ?thesis
      using True by (simp add: Pair floor64_def del: of_int_mult of_int_power)
  next
    case False
    have "\<lfloor>real_of_int m / real_of_int (2 ^ nat (- s))\<rfloor> = m div 2 ^ nat (- s)"
      by (rule floor_divide_of_int_eq)
    with False show ?thesis
      by (simp add: Pair floor64_def value64_def)
  qed
qed

lemma binary64_integer:
  assumes "\<bar>P\<bar> < 2 ^ 53"
  shows "floor64 (binary64 P 1) = P"
proof (cases "P = 0")
  case True
  then show ?thesis by (simp add: binary64_def floor64_def)
next
  case False
  let ?a = "nat \<bar>P\<bar>"
  let ?s = "exponent2 ?a 1 - 52"
  have "?a < 2 ^ 53"
    using assms by (simp add: nat_less_iff)
  then have "bitlen ?a \<le> 53"
    by (rule bitlen_le)
  moreover note bitlen_one
  ultimately have s: "?s \<le> 0"
    using exponent2_le [of ?a 1] by simp
  then have ns: "nat ?s = 0"
    by simp
  have P: "sgn P * int ?a = P"
    by (simp add: mult_sgn_abs)
  have "binary64 P 1 = (sgn P * int (rne (?a * 2 ^ nat (- ?s)) (1 * 2 ^ nat ?s)), ?s)"
    using False by (simp only: binary64_def Let_def if_False)
  also have "rne (?a * 2 ^ nat (- ?s)) (1 * 2 ^ nat ?s) = ?a * 2 ^ nat (- ?s)"
    by (simp only: ns power_0 mult_1 rne_one)
  also have "sgn P * int (?a * 2 ^ nat (- ?s)) = P * 2 ^ nat (- ?s)"
    using P by (simp add: mult.assoc [symmetric])
  finally have b: "binary64 P 1 = (P * 2 ^ nat (- ?s), ?s)" .
  show ?thesis
  proof (cases "?s = 0")
    case True
    then show ?thesis unfolding b by (simp add: floor64_def)
  next
    case False
    with s have "?s < 0" by simp
    then show ?thesis unfolding b by (simp add: floor64_def)
  qed
qed

lemma bitlen_100: "bitlen 100 = 7"
  by (simp add: bitlen.simps)

lemma floor_near:
  fixes W :: real
  assumes err: "\<bar>W - real_of_int n / 100\<bar> \<le> 1 / 128"
    and exact: "100 dvd n \<Longrightarrow> W = real_of_int n / 100"
  shows "\<lfloor>W\<rfloor> = n div 100"
proof (cases "100 dvd n")
  case True
  then obtain q where q: "n = 100 * q" ..
  with exact [OF True] show ?thesis
    by simp
next
  case False
  let ?q = "n div 100" and ?r = "n mod 100"
  have r: "1 \<le> ?r" "?r \<le> 99"
    using False by (simp_all add: dvd_eq_mod_eq_0)
  have "n = 100 * ?q + ?r"
    by simp
  then have "real_of_int n = 100 * real_of_int ?q + real_of_int ?r"
    by (metis of_int_add of_int_mult of_int_numeral)
  then have x: "real_of_int n / 100 = real_of_int ?q + real_of_int ?r / 100"
    by simp
  have "real_of_int ?q + 1 / 100 \<le> real_of_int n / 100"
       "real_of_int n / 100 \<le> real_of_int ?q + 99 / 100"
    using r by (simp_all add: x)
  moreover have "- (1 / 128) \<le> W - real_of_int n / 100" "W - real_of_int n / 100 \<le> 1 / 128"
    using err by (simp_all only: abs_le_iff) linarith+
  ultimately have "real_of_int ?q \<le> W" "W < real_of_int ?q + 1"
    by linarith+
  then show ?thesis
    by (simp add: floor_unique)
qed

lemma binary64_quotient:
  assumes "\<bar>n\<bar> < 2 ^ 53"
  shows "floor64 (binary64 n 100) = n div 100"
proof (cases "n = 0")
  case True
  then show ?thesis by (simp add: binary64_def floor64_def)
next
  case False
  define a where "a = nat \<bar>n\<bar>"
  define s where "s = exponent2 a 100 - 52"
  define k where "k = nat (- s)"
  define m where "m = rne (a * 2 ^ k) 100"
  define W where "W = real_of_int (sgn n * int m) / 2 ^ k"
  have "a < 2 ^ 53"
    using assms by (simp add: a_def nat_less_iff)
  then have "bitlen a \<le> 53"
    by (rule bitlen_le)
  then have s: "s \<le> - 6"
    using exponent2_le [of a 100] by (simp add: s_def bitlen_100)
  then have ns: "nat s = 0" and k: "6 \<le> k"
    by (simp_all add: k_def)
  have "binary64 n 100 = (sgn n * int (rne (a * 2 ^ nat (- s)) (100 * 2 ^ nat s)), s)"
    using False by (simp only: binary64_def Let_def if_False a_def s_def)
  then have b: "binary64 n 100 = (sgn n * int m, s)"
    by (simp add: ns m_def k_def)
  have fl: "floor64 (binary64 n 100) = \<lfloor>W\<rfloor>"
    by (simp add: floor64_value64 b value64_def ns W_def k_def)
  have pk: "(64 :: real) \<le> 2 ^ k"
    using power_increasing [OF k, of "2 :: real"] by simp
  have "n = sgn n * int a"
    by (simp add: a_def mult_sgn_abs)
  then have "real_of_int n = real_of_int (sgn n * int a)"
    by simp
  then have n: "real_of_int n = real_of_int (sgn n) * real a"
    by (simp only: of_int_mult of_int_of_nat_eq)
  have sg: "\<bar>real_of_int (sgn n)\<bar> = 1"
    using False by (simp add: sgn_if)
  have diff: "W - real_of_int n / 100 =
                real_of_int (sgn n) * ((real m - real (a * 2 ^ k) / real 100) / 2 ^ k)"
    by (simp add: W_def n field_simps)
  have "\<bar>real m - real (a * 2 ^ k) / real 100\<bar> \<le> 1 / 2"
    unfolding m_def by (rule rne_error) simp
  then have "\<bar>(real m - real (a * 2 ^ k) / real 100) / 2 ^ k\<bar> \<le> (1 / 2) / 64"
    using pk by (simp add: abs_divide frac_le)
  then have err: "\<bar>W - real_of_int n / 100\<bar> \<le> 1 / 128"
    by (simp add: diff abs_mult sg)
  have exact: "W = real_of_int n / 100" if "100 dvd n"
  proof -
    have "100 dvd int a"
      using that by (simp add: a_def)
    then have "100 dvd a"
      by presburger
    then have "100 dvd a * 2 ^ k"
      by simp
    then have "m * 100 = a * 2 ^ k"
      by (simp add: m_def rne_exact)
    then have "real m * 100 = real a * 2 ^ k"
      by (metis of_nat_mult of_nat_numeral of_nat_power)
    then have h: "real m / 2 ^ k = real a / 100"
      by (simp add: field_simps)
    have "W = real_of_int (sgn n) * (real m / 2 ^ k)"
      by (simp add: W_def)
    also have "\<dots> = real_of_int (sgn n) * (real a / 100)"
      by (simp only: h)
    also have "\<dots> = real_of_int n / 100"
      by (simp add: n)
    finally show ?thesis .
  qed
  show ?thesis
    unfolding fl using err exact by (rule floor_near)
qed


lemma getBatchId_binary64_exact:
  assumes "\<bar>n\<bar> < 2 ^ 53" and "\<bar>n div 100 * 100\<bar> < 2 ^ 53"
  shows "getBatchId_binary64 n = getBatchId n"
  using assms
  by (simp add: getBatchId_binary64_def binary64_quotient binary64_integer getBatchId_div
        del: One_nat_def)

lemma getBatchId_exact_properties:
  "getBatchId n = \<lfloor>real_of_int n / 100\<rfloor> * 100
   \<and> getBatchId n = n - n mod 100
   \<and> getBatchId n \<le> n \<and> n < getBatchId n + 100
   \<and> (\<forall>k. 0 \<le> k \<and> k < 100 \<longrightarrow> getBatchId (getBatchId n + k) = getBatchId n)"
proof (intro conjI allI impI)
  show "getBatchId n = \<lfloor>real_of_int n / 100\<rfloor> * 100"
    by (simp add: getBatchId_def)
  show "getBatchId n = n - n mod 100"
    by (simp add: getBatchId_div minus_mod_eq_div_mult)
  show "getBatchId n \<le> n" and "n < getBatchId n + 100"
    by (simp_all add: getBatchId_div)
  show "getBatchId (getBatchId n + k) = getBatchId n" if "0 \<le> k \<and> k < 100" for k
    using that by (simp add: getBatchId_offset)
qed

lemma bitlen_bounds:
  "0 < n \<Longrightarrow> 2 ^ (bitlen n - 1) \<le> n \<and> n < 2 ^ bitlen n"
proof (induction n rule: bitlen.induct)
  case (1 n)
  show ?case
  proof (cases "n div 2 = 0")
    case True
    with 1(2) have "n = 1"
      by (simp add: div_eq_0_iff) 
    then show ?thesis
      by (simp add: bitlen.simps)
  next
    case False
    let ?b = "bitlen (n div 2)"
    have IH: "2 ^ (?b - 1) \<le> n div 2" "n div 2 < 2 ^ ?b"
      using 1 False by simp_all
    have b: "0 < ?b"
      using False by (simp add: bitlen.simps [of "n div 2"])
    have bl: "bitlen n = Suc ?b"
      using 1(2) by (simp add: bitlen.simps [of n])
    have "(2 :: nat) ^ ?b = 2 * 2 ^ (?b - 1)"
      using b by (cases ?b) simp_all
    then have "(2 :: nat) ^ ?b \<le> 2 * (n div 2)"
      using IH(1) by linarith
    then have lo: "2 ^ ?b \<le> n"
      by linarith
    have "n < 2 * 2 ^ ?b"
      using IH(2) by linarith
    with lo show ?thesis
      by (simp add: bl)
  qed
qed

lemma exponent2_correct:
  assumes "0 < a" and "0 < b"
  shows "b * 2 ^ nat (exponent2 a b) \<le> a * 2 ^ nat (- exponent2 a b)
         \<and> a * 2 ^ nat (- exponent2 a b) < 2 * (b * 2 ^ nat (exponent2 a b))"
proof -
  let ?ba = "bitlen a" and ?bb = "bitlen b"
  have a: "2 ^ (?ba - 1) \<le> a" "a < 2 ^ ?ba" and b: "2 ^ (?bb - 1) \<le> b" "b < 2 ^ ?bb"
    using bitlen_bounds [OF assms(1)] bitlen_bounds [OF assms(2)] by simp_all
  have pa: "0 < ?ba" and pb: "0 < ?bb"
    using assms by (simp_all add: bitlen.simps [of a] bitlen.simps [of b])
  have a2: "(2 :: nat) ^ ?ba = 2 * 2 ^ (?ba - 1)" and b2: "(2 :: nat) ^ ?bb = 2 * 2 ^ (?bb - 1)"
    using pa pb by (cases ?ba, simp_all) (cases ?bb, simp_all)
  show ?thesis
  proof (cases "?bb \<le> ?ba")
    case True
    define j where "j = ?ba - ?bb"
    have d: "int ?ba - int ?bb = int j" and ba: "?ba = ?bb + j"
      using True by (simp_all add: j_def)
    have up: "a < 2 * (b * 2 ^ j)"
    proof -
      have "a < 2 ^ ?bb * 2 ^ j"
        using a(2) by (simp add: ba power_add)
      also have "\<dots> = 2 * (2 ^ (?bb - 1) * 2 ^ j)"
        by (simp add: b2)
      also have "\<dots> \<le> 2 * (b * 2 ^ j)"
        using b(1) by simp
      finally show ?thesis .
    qed
    show ?thesis
    proof (cases "a < b * 2 ^ j")
      case False
      then have e: "exponent2 a b = int j"
        by (simp add: exponent2_def d)
      show ?thesis
        using False up by (simp add: e)
    next
      case c: True
      then have e: "exponent2 a b = int j - 1"
        by (simp add: exponent2_def d)
      show ?thesis
      proof (cases j)
        case 0
        have "?ba = ?bb"
          by (simp add: ba 0)
        then have "b < 2 ^ ?ba"
          using b(2) by simp
        then have "b < 2 * a"
          using a(1) a2 by linarith
        with c show ?thesis
          by (simp add: e 0)
      next
        case (Suc i)
        have "2 * (b * 2 ^ i) < 2 * a"
        proof -
          have "2 * (b * 2 ^ i) < 2 * 2 ^ ?bb * 2 ^ i"
            using b(2) by simp
          also have "\<dots> = 2 ^ ?ba"
            by (simp add: ba Suc power_add)
          also have "\<dots> \<le> 2 * a"
            using a(1) by (simp add: a2)
          finally show ?thesis .
        qed
        with c show ?thesis
          by (simp add: e Suc)
      qed
    qed
  next
    case False
    define j where "j = ?bb - ?ba"
    have d: "int ?ba - int ?bb = - int j" and bb: "?bb = ?ba + j" and j: "0 < j"
      using False by (simp_all add: j_def)
    have lo: "b < 2 * (a * 2 ^ j)"
    proof -
      have "b < 2 ^ ?ba * 2 ^ j"
        using b(2) by (simp add: bb power_add)
      also have "\<dots> = 2 * (2 ^ (?ba - 1) * 2 ^ j)"
        by (simp add: a2)
      also have "\<dots> \<le> 2 * (a * 2 ^ j)"
        using a(1) by simp
      finally show ?thesis .
    qed
    have up: "a * 2 ^ j < 2 * b"
    proof -
      have "a * 2 ^ j < 2 ^ ?ba * 2 ^ j"
        using a(2) by simp
      also have "\<dots> = 2 ^ ?bb"
        by (simp add: bb power_add)
      also have "\<dots> = 2 * 2 ^ (?bb - 1)"
        by (rule b2)
      also have "\<dots> \<le> 2 * b"
        using b(1) by simp
      finally show ?thesis .
    qed
    show ?thesis
    proof (cases "a * 2 ^ j < b")
      case False
      then have e: "exponent2 a b = - int j"
        using j by (simp add: exponent2_def d)
      show ?thesis
        using False up by (simp add: e)
    next
      case c: True
      then have e: "exponent2 a b = - int j - 1"
        using j by (simp add: exponent2_def d)
      have n: "nat (- (- int j - 1)) = Suc j" "nat (- int j - 1) = 0" "nat (1 + int j) = Suc j"
        by simp_all
      have "a * 2 ^ Suc j = 2 * (a * 2 ^ j)"
        by simp
      with c lo have "b \<le> a * 2 ^ Suc j \<and> a * 2 ^ Suc j < 2 * b"
        by linarith
      then show ?thesis
        by (simp add: e n del: of_nat_Suc power_Suc)
    qed
  qed
qed

lemma bitlen_big: "bitlen 56294995342131296 = 56" "bitlen 56294995342131300 = 56"
  by (simp_all add: bitlen.simps)

lemma binary64_big_quotient: "binary64 56294995342131296 100 = (4503599627370504, - 3)"
  by (simp add: binary64_def exponent2_def bitlen_big bitlen_100 rne_def)

lemma binary64_big_product: "binary64 56294995342131300 1 = (7036874417766412, 3)"
  by (simp add: binary64_def exponent2_def bitlen_big bitlen_one rne_def del: One_nat_def)

lemma bitlen_small: "bitlen (Suc 0) = 1" "bitlen 10 = 4"
  by (simp_all add: bitlen.simps)

lemma binary64_one_tenth: "binary64 1 10 = (7205759403792794, - 56)"
  by (simp add: binary64_def exponent2_def rne_def bitlen_small)

lemma fetchNewsRawBatch_wire_readable:
  "fetchNewsRawBatch_wire (\<lambda>b. map_response Some (news_raw_json w b)) startId reqs =
     (Inr (fst (fetchNewsRawBatch w startId reqs)), snd (fetchNewsRawBatch w startId reqs))"
  by (simp add: fetchNewsRawBatch_wire_def fetchNewsRawBatch_def Let_def split: response.splits)

lemma fetchNewsRawById_wire_readable:
  "fetchNewsRawById_wire (\<lambda>b. map_response Some (news_raw_json w b)) newsId reqs =
     (Inr (fst (fetchNewsRawById w newsId reqs)), snd (fetchNewsRawById w newsId reqs))"
  by (simp add: fetchNewsRawById_wire_def fetchNewsRawBatch_wire_readable fetchNewsRawById_def
           split: prod.splits)

lemma fetchNewsRawBatch_cached_wire_readable:
  "fetchNewsRawBatch_cached_wire (\<lambda>b. map_response Some (news_raw_json w b)) startId s =
     fetchNewsRawBatch_cached w startId s"
  by (simp add: fetchNewsRawBatch_cached_wire_def fetchNewsRawBatch_cached_def
        fetchFileUncached_wire_def fetchFileUncached_def Let_def
      split: response.splits option.splits)

lemma fetchNewsRawBatch_wire_absorbs:
  assumes "net (getBatchId newsId) = Rejected
           \<or> (\<exists>status body. net (getBatchId newsId) = Http status body \<and> \<not> ok status)"
  shows "fst (fetchNewsRawBatch_wire net newsId reqs) = Inr []
         \<and> fst (fetchNewsRawById_wire net newsId reqs) = Inr None"
  using assms
  by (auto simp: fetchNewsRawBatch_wire_def fetchNewsRawById_wire_def Let_def)

lemma fetchNewsRawBatch_wire_unread_body:
  assumes "net (getBatchId newsId) = Http status None" and "ok status"
  shows "fst (fetchNewsRawBatch_wire net newsId reqs) = Inl BodyFailed
         \<and> fst (fetchNewsRawById_wire net newsId reqs) = Inl BodyFailed
         \<and> fst (fetchNewsRawById_client_wire net newsId reqs) = None"
    and "newsRawBatchCache s (getBatchId newsId) = None \<Longrightarrow>
           fst (fetchNewsRawBatch_cached_wire net newsId s) = []
           \<and> fst (fetchNewsRawById_cached_wire net newsId s) = None"
  using assms
  by (auto simp: fetchNewsRawBatch_wire_def fetchNewsRawById_wire_def Let_def
        fetchNewsRawById_client_wire_def getBatchId_def [symmetric]
        fetchNewsRawBatch_cached_wire_def fetchNewsRawById_cached_wire_def fetchFileUncached_wire_def)

lemma fetchNewsRawBatch_absorbs_failure:
  assumes "news_raw_json w (getBatchId newsId) = Rejected
           \<or> (\<exists>status body. news_raw_json w (getBatchId newsId) = Http status body \<and> \<not> ok status)"
  shows "fst (fetchNewsRawBatch w newsId reqs) = []
         \<and> fst (fetchNewsRawById w newsId reqs) = None
         \<and> (newsRawBatchCache s (getBatchId newsId) = None \<longrightarrow>
                fst (fetchNewsRawBatch_cached w newsId s) = [])
         \<and> \<not> ok 404"
  using assms
  by (auto simp: fetchNewsRawBatch_def fetchNewsRawById_def fetchNewsRawBatch_cached_def
        fetchFileUncached_def ok_def Let_def)

section \<open>Claims\<close>

text \<open>
  C1. For every list of ids, \<open>fetchNewsRawByIds\<close> (the build-time function and the one of
  the client, which return the same) returns the found items in the order in which their
  ids stand in the input list, not in the order of the batches and not in the order of the
  ids as numbers: the result lists, for each requested id in input order, the items of
  its batch that carry that id, so an id with no matching item contributes nothing and
  the order of the others is kept. (An id that the input repeats counts at its last
  place; C10 is about that case.) When no batch holds two items with one id, the ids of
  the result are a subsequence of the input.
\<close>

theorem fetchNewsRawByIds_input_order:
  "fst (fetchNewsRawByIds w ids reqs) =
     concat (map (\<lambda>i. filter (\<lambda>item. id_raw item = i) (fst (fetchNewsRawBatch w i []))) (remdups ids))
   \<and> fst (fetchNewsRawByIds_client w ids reqs) = fst (fetchNewsRawByIds w ids reqs)
   \<and> (distinct ids \<longrightarrow>
        fst (fetchNewsRawByIds w ids reqs) =
          concat (map (\<lambda>i. filter (\<lambda>item. id_raw item = i) (fst (fetchNewsRawBatch w i []))) ids))
   \<and> ((\<forall>b. distinct (map id_raw (fst (fetchNewsRawBatch w b [])))) \<longrightarrow>
        subseq (map id_raw (fst (fetchNewsRawByIds w ids reqs))) ids)"
proof (intro conjI impI)
  show general: "fst (fetchNewsRawByIds w ids reqs) =
     concat (map (\<lambda>i. filter (\<lambda>item. id_raw item = i) (fst (fetchNewsRawBatch w i []))) (remdups ids))"
    by (simp add: fetchNewsRawByIds_eq in_input_order_def delivered_def)
  show "fst (fetchNewsRawByIds_client w ids reqs) = fst (fetchNewsRawByIds w ids reqs)"
    by (simp add: fetchNewsRawByIds_client_eq)
  show "fst (fetchNewsRawByIds w ids reqs) =
          concat (map (\<lambda>i. filter (\<lambda>item. id_raw item = i) (fst (fetchNewsRawBatch w i []))) ids)"
    if "distinct ids"
    using that general by (simp add: distinct_remdups_id)
  show "subseq (map id_raw (fst (fetchNewsRawByIds w ids reqs))) ids"
    if "\<forall>b. distinct (map id_raw (fst (fetchNewsRawBatch w b [])))"
  proof -
    have "map id_raw (fst (fetchNewsRawByIds w ids reqs)) =
            filter (\<lambda>i. i \<in> id_raw ` set (delivered w i)) (remdups ids)"
      using that by (simp add: fetchNewsRawByIds_eq ids_in_input_order delivered_def)
    moreover have "subseq (filter (\<lambda>i. i \<in> id_raw ` set (delivered w i)) (remdups ids)) (remdups ids)"
      by simp
    ultimately show ?thesis
      using subseq_remdups [of ids] by (metis subseq_order.trans)
  qed
qed

theorem fetchNewsRawByIds_input_order_witness:
  "fst (fetchNewsRawByIds demoServer [30, 10, 120] []) =
     [rawItem 30 ''Beta'' ''second'', rawItem 10 ''Alpha'' ''first'', rawItem 120 ''Gamma'' ''third'']
   \<and> fst (fetchNewsRawByIds_client demoServer [30, 310, 10, 120] []) =
     [rawItem 30 ''Beta'' ''second'', rawItem 10 ''Alpha'' ''first'', rawItem 120 ''Gamma'' ''third'']
   \<and> subseq (map id_raw (fst (fetchNewsRawByIds demoServer [30, 310, 10, 120] []))) [30, 310, 10, 120]"
  using fetchNewsRawByIds_input_order [of demoServer "[30, 10, 120]" "[]"]
        fetchNewsRawByIds_input_order [of demoServer "[30, 310, 10, 120]" "[]"]
        demo_unique
  by (simp add: demo_delivered getBatchId_div rawItem_def)

text \<open>
  C2. The claim: \<open>fetchRecentNews\<close> returns the \<open>limit\<close> items with the highest ids at or
  below the latest id, whatever the alignment of the ids with the batches. On a latest
  id of 202 and a limit of 5, with the items 200, 201 and 202 in the batch 200 and the
  items 198 and 199 in the batch 100, the function requests \<open>\<lceil>5 / 100\<rceil> = 1\<close> batch and
  returns the three items 202, 201 and 200. Lemma \<open>fetchRecentNews_single_batch\<close>: for
  a limit from 1 to 100 the result is drawn from the batch of the latest id alone.
\<close>

theorem fetchRecentNews_partial_latest_batch:
  "meta_json demoServer = Http 200 (metaWith 202)
   \<and> map_sum id (map id_raw) (fst (fetchRecentNews demoServer 5 [])) = Inr [202, 201, 200]
   \<and> snd (fetchRecentNews demoServer 5 []) = [GetMeta, GetNewsRaw 200]
   \<and> map id_raw (fst (fetchNewsRawBatch demoServer 199 [])) = [120, 198, 199]"
  by (simp add: fetchRecentNews_eval fetchMeta_def fetchFile_def demoServer_def ok_def metaWith_def
        fetchNewsRawBatch_def getBatchId_div rawItem_def slice0_def)

text \<open>
  C3. The claim: when, in one call that spans several batches, the fetch of one batch
  fails and the others succeed, the call still returns the matching items of the batches
  that were fetched. \<open>fetchNewsRawByIds\<close> does so (lemma \<open>fetchNewsRawByIds_degrades\<close>).
  \<open>fetchNewsRaw\<close> of the reference store does not: on the ids 30, 120 and 310, with the
  batches 0 and 100 delivered and the batch 300 answered with 404, it requests the three
  batches and returns the empty list, where \<open>fetchNewsRawByIds\<close> returns the items 30 and
  120. Lemma \<open>fetchNewsRaw_store_all_or_nothing\<close>: the store returns the empty list
  whenever the batch of one requested id that is not in its cache fails.
\<close>

theorem fetchNewsRaw_store_aborts_on_one_failure:
  "news_raw_json demoServer 300 = Http 404 []
   \<and> fst (fetchNewsRaw_store demoServer [30, 120, 310] Map.empty []) = []
   \<and> snd (snd (fetchNewsRaw_store demoServer [30, 120, 310] Map.empty [])) =
        [GetNewsRaw 0, GetNewsRaw 100, GetNewsRaw 300]
   \<and> fst (fetchNewsRawByIds demoServer [30, 120, 310] []) =
        [rawItem 30 ''Beta'' ''second'', rawItem 120 ''Gamma'' ''third'']"
  by (simp add: fetchNewsRaw_store_def first_seen_def Set_add_def getBatchId_div fetchNewsRawBatch_ref_def
        demoServer_def ok_def fetchNewsRawByIds_eq in_input_order_def delivered_def
        fetchNewsRawBatch_def rawItem_def)

text \<open>
  C4. The claim: \<open>searchNews\<close> scans the most recent batches. With a static limit of 100
  and a latest id of 202, the function requests the batch 0 alone (lemma
  \<open>searchNews_requests\<close>: the batches are those that start at 0, 100, and so on, whatever
  the latest id is) and finds nothing for the query \<^verbatim>\<open>xyz\<close>, although the item 202 of the
  most recent batch has the title \<^verbatim>\<open>Xyz report\<close>.
\<close>

theorem searchNews_scans_oldest_batch:
  "meta_json demoServer = Http 200 (metaWith 202)
   \<and> searchNews 100 demoServer ''xyz'' 50 [] = ([], [GetNewsRaw 0])
   \<and> rawItem 202 ''Xyz report'' ''eighth'' \<in> set (fst (fetchNewsRawBatch demoServer 202 []))
   \<and> includes_str (toLowerCase (title (rawItem 202 ''Xyz report'' ''eighth''))) (toLowerCase ''xyz'')"
  by (simp add: searchNews_eval demoServer_def ok_def fetchNewsRawBatch_def getBatchId_div
        rawItem_def slice0_def toLowerCase_def includes_str_def sublist_Cons_right)

text \<open>
  C5. The claim: a batch fetch that fails, with a status that is not a success or in
  transport, gives the empty list and never a thrown error, and \<open>fetchNewsRawById\<close> then
  returns the not-found value. This holds for a fetch that is rejected and for a status
  that is not a success, 404 included (lemmas \<open>fetchNewsRawBatch_wire_absorbs\<close>,
  \<open>fetchNewsRawBatch_absorbs_failure\<close>). It fails when the response arrives with a
  success status and the body cannot be read: for the id 310, with the batch 300 answered
  by the status 200 and a body that fails, \<open>fetchNewsRawBatch\<close> and \<open>fetchNewsRawById\<close> of
  src/lib/api.ts throw, where the cached accessor of src/lib/utils.ts returns the empty
  list and \<open>fetchNewsRawById\<close> of the client returns the not-found value (lemma
  \<open>fetchNewsRawBatch_wire_unread_body\<close>: so for every id and every such response).
\<close>

theorem fetchNewsRawBatch_unread_body_escapes:
  "brokenNet (getBatchId 310) = Http 200 None
   \<and> ok 200
   \<and> fst (fetchNewsRawBatch_wire brokenNet 310 []) = Inl BodyFailed
   \<and> fst (fetchNewsRawById_wire brokenNet 310 []) = Inl BodyFailed
   \<and> fst (fetchNewsRawBatch_cached_wire brokenNet 310 emptyCaches) = []
   \<and> fst (fetchNewsRawById_client_wire brokenNet 310 []) = None"
  by (simp add: fetchNewsRawBatch_wire_def fetchNewsRawById_wire_def
        fetchNewsRawBatch_cached_wire_def fetchFileUncached_wire_def fetchNewsRawById_client_wire_def
        brokenNet_def getBatchId_div getBatchId_def [symmetric] ok_def emptyCaches_def)

text \<open>
  C6, as stated, fails: a call of the cached accessor whose fetch fails returns the empty
  list and stores nothing, so the next call for the same batch issues a new request.
\<close>

theorem fetchNewsRawBatch_cached_failure_not_stored:
  "news_raw_json demoServer (getBatchId 300) = Http 404 []
   \<and> fst (fetchNewsRawBatch_cached demoServer 300 emptyCaches) = []
   \<and> newsRawBatchCache (snd (fetchNewsRawBatch_cached demoServer 300 emptyCaches)) (getBatchId 300) = None
   \<and> requests (snd (fetchNewsRawBatch_cached demoServer 300
                       (snd (fetchNewsRawBatch_cached demoServer 300 emptyCaches)))) =
        [GetNewsRaw 300, GetNewsRaw 300]"
  by (simp add: fetchNewsRawBatch_cached_def getBatchId_div emptyCaches_def fetchFileUncached_def
        demoServer_def ok_def)

text \<open>
  C6, amended. For every batch id \<open>b\<close>: a call of the cached accessor that finds \<open>b\<close> in
  the cache returns the stored list and issues no request; a call that does not find it
  and whose fetch succeeds stores the fetched list under \<open>b\<close>, also when the list is
  empty, and returns it, so that every later call for \<open>b\<close> returns the stored value
  without a new request (a call never removes or replaces an entry); a call that does not
  find it and whose fetch fails returns the empty list and leaves the cache as it was.
\<close>

theorem fetchNewsRawBatch_cached_stores_success:
  "(newsRawBatchCache s (getBatchId startId) = Some cached \<longrightarrow>
      fetchNewsRawBatch_cached w startId s = (cached, s))
   \<and> (newsRawBatchCache s (getBatchId startId) = None
        \<and> news_raw_json w (getBatchId startId) = Http status body \<and> ok status \<longrightarrow>
      fst (fetchNewsRawBatch_cached w startId s) = body
      \<and> newsRawBatchCache (snd (fetchNewsRawBatch_cached w startId s)) (getBatchId startId) = Some body
      \<and> requests (snd (fetchNewsRawBatch_cached w startId s)) =
          requests s @ [GetNewsRaw (getBatchId startId)]
      \<and> fetchNewsRawBatch_cached w' startId (snd (fetchNewsRawBatch_cached w startId s)) =
          (body, snd (fetchNewsRawBatch_cached w startId s)))
   \<and> (newsRawBatchCache s (getBatchId startId) = None
        \<and> (news_raw_json w (getBatchId startId) = Rejected
            \<or> (\<exists>st b. news_raw_json w (getBatchId startId) = Http st b \<and> \<not> ok st)) \<longrightarrow>
      fetchNewsRawBatch_cached w startId s =
        ([], s\<lparr>requests := requests s @ [GetNewsRaw (getBatchId startId)]\<rparr>))
   \<and> (newsRawBatchCache s b = Some v \<longrightarrow>
      newsRawBatchCache (snd (fetchNewsRawBatch_cached w startId s)) b = Some v)"
  by (auto simp: fetchNewsRawBatch_cached_def fetchFileUncached_def Let_def
           split: response.splits option.splits)

theorem fetchNewsRawBatch_cached_stores_success_witness:
  "fetchNewsRawBatch_cached demoServer 30 warmCaches =
     ([rawItem 10 ''Alpha'' ''first'', rawItem 30 ''Beta'' ''second''], warmCaches)
   \<and> newsRawBatchCache (snd (fetchNewsRawBatch_cached demoServer 201 warmCaches)) 0 =
        Some [rawItem 10 ''Alpha'' ''first'', rawItem 30 ''Beta'' ''second'']
   \<and> fst (fetchNewsRawBatch_cached demoServer 510 emptyCaches) = []
   \<and> newsRawBatchCache (snd (fetchNewsRawBatch_cached demoServer 510 emptyCaches)) 500 = Some []
   \<and> requests (snd (fetchNewsRawBatch_cached demoServer 510
                       (snd (fetchNewsRawBatch_cached demoServer 510 emptyCaches)))) = [GetNewsRaw 500]
   \<and> fetchNewsRawBatch_cached demoServer 300 emptyCaches =
        ([], emptyCaches\<lparr>requests := [GetNewsRaw 300]\<rparr>)"
proof -
  have hit: "newsRawBatchCache warmCaches (getBatchId 30) =
               Some [rawItem 10 ''Alpha'' ''first'', rawItem 30 ''Beta'' ''second'']"
    and kept: "newsRawBatchCache warmCaches 0 =
               Some [rawItem 10 ''Alpha'' ''first'', rawItem 30 ''Beta'' ''second'']"
    by (simp_all add: warmCaches_def getBatchId_div)
  have miss: "newsRawBatchCache emptyCaches (getBatchId 510) = None"
             "newsRawBatchCache emptyCaches (getBatchId 300) = None"
    by (simp_all add: emptyCaches_def)
  have served: "news_raw_json demoServer (getBatchId 510) = Http 200 []" "ok 200"
    and failed: "news_raw_json demoServer (getBatchId 300) = Http 404 []" "\<not> ok 404"
    by (simp_all add: demoServer_def getBatchId_div ok_def)
  show ?thesis
    using fetchNewsRawBatch_cached_stores_success
            [of warmCaches 30 "[rawItem 10 ''Alpha'' ''first'', rawItem 30 ''Beta'' ''second'']"
                demoServer 200 "[]" demoServer 0 "[]"]
          fetchNewsRawBatch_cached_stores_success
            [of warmCaches 201 "[]" demoServer 200 "[]" demoServer 0
                "[rawItem 10 ''Alpha'' ''first'', rawItem 30 ''Beta'' ''second'']"]
          fetchNewsRawBatch_cached_stores_success
            [of emptyCaches 510 "[]" demoServer 200 "[]" demoServer 0 "[]"]
          fetchNewsRawBatch_cached_stores_success
            [of emptyCaches 300 "[]" demoServer 200 "[]" demoServer 0 "[]"]
          hit kept miss served failed
    by (simp add: getBatchId_div emptyCaches_def)
qed

text \<open>
  C7. The claim: every key of \<open>newsArticleCache\<close> is the batch id of the articles stored
  under it, so a second call for an id of a batch that was fetched is answered from the
  cache. The function looks the batch id up and stores under the id of the article: after
  a call for the article 150 the articles of the batch 100 stand under the key 150, the
  key 100 is absent, and the second call for 150 requests the batch again (lemma
  \<open>fetchNewsArticleById_cached_refetch\<close>: so does every id that is not a multiple of 100).
\<close>

theorem fetchNewsArticleById_cached_keyed_by_id:
  "getBatchId 150 = 100
   \<and> fst (fetchNewsArticleById_cached demoServer 150 emptyCaches) = Some (cluster 150)
   \<and> newsArticleCache (snd (fetchNewsArticleById_cached demoServer 150 emptyCaches)) 150 =
        Some [cluster 150, cluster 151]
   \<and> newsArticleCache (snd (fetchNewsArticleById_cached demoServer 150 emptyCaches)) 100 = None
   \<and> requests (snd (fetchNewsArticleById_cached demoServer 150
                       (snd (fetchNewsArticleById_cached demoServer 150 emptyCaches)))) =
        [GetNewsArticles 100, GetNewsArticles 100]"
  by (simp add: fetchNewsArticleById_cached_def getBatchId_div emptyCaches_def fetchFileUncached_def
        demoServer_def ok_def cluster_def)


text \<open>
  C9, as stated for all ids, fails: the id 56294995342131296 is a number of the language
  (its rounding is the id itself), its quotient by 100 rounds up to \<open>2 ^ 49 + 1\<close>, the
  product with 100 rounds back to the id, and the computation of the code,
  \<open>getBatchId_binary64\<close>, returns the id, which is not the floor of the id divided by
  100, times 100.
\<close>

theorem getBatchId_binary64_beyond_safe_range:
  "binary64 56294995342131296 1 = (7036874417766412, 3)
   \<and> floor64 (7036874417766412, 3) = 56294995342131296
   \<and> getBatchId_binary64 56294995342131296 = 56294995342131296
   \<and> \<lfloor>real_of_int 56294995342131296 / 100\<rfloor> * 100 = (56294995342131200 :: int)"
proof -
  have "binary64 56294995342131296 1 = (7036874417766412, 3)"
    by (simp add: binary64_def exponent2_def bitlen_big bitlen_one rne_def del: One_nat_def)
  moreover have "floor64 (binary64 56294995342131296 100) * 100 = 56294995342131300"
    by (simp add: binary64_big_quotient floor64_def)
  then have "getBatchId_binary64 56294995342131296 = 56294995342131296"
    by (simp add: getBatchId_binary64_def binary64_big_product floor64_def del: One_nat_def)
  ultimately show ?thesis
    by (simp add: floor64_def)
qed

text \<open>
  C9, amended. For every id \<open>n\<close> of magnitude at most \<open>2 ^ 53 - 100\<close> (so that the id, its
  batch id and the ids of its batch are integers that the numbers of the language hold
  exactly), the batch id as the code computes it is the floor of \<open>n / 100\<close> times 100,
  which is \<open>n - n mod 100\<close>, the lower end of the range of 100 ids that holds \<open>n\<close>; the
  function is total; and it is idempotent under re-application to its own result plus any
  offset \<open>k\<close> with \<open>0 \<le> k < 100\<close>.
\<close>

theorem getBatchId_binary64_safe_range:
  assumes "\<bar>n\<bar> \<le> 2 ^ 53 - 100"
  shows "getBatchId_binary64 n = \<lfloor>real_of_int n / 100\<rfloor> * 100
         \<and> getBatchId_binary64 n = n - n mod 100
         \<and> getBatchId_binary64 n \<le> n \<and> n < getBatchId_binary64 n + 100
         \<and> (\<forall>k. 0 \<le> k \<and> k < 100 \<longrightarrow>
                getBatchId_binary64 (getBatchId_binary64 n + k) = getBatchId_binary64 n)
         \<and> getBatchId_binary64 n = getBatchId n"
proof -
  have n: "- 9007199254740892 \<le> n" "n \<le> 9007199254740892"
    using assms by (simp_all add: abs_le_iff)
  have range: "n - 99 \<le> getBatchId n" "getBatchId n \<le> n"
    by (simp_all add: getBatchId_div)
  have exact: "getBatchId_binary64 i = getBatchId i"
    if "n - 99 \<le> i" "i \<le> n + 99" "n - 99 \<le> getBatchId i" "getBatchId i \<le> n + 99" for i
  proof (rule getBatchId_binary64_exact)
    show "\<bar>i\<bar> < 2 ^ 53"
      using n that by (simp add: abs_less_iff)
    have "\<bar>getBatchId i\<bar> < 2 ^ 53"
      using n that by (simp add: abs_less_iff)
    then show "\<bar>i div 100 * 100\<bar> < 2 ^ 53"
      by (simp add: getBatchId_div)
  qed
  have same: "getBatchId_binary64 n = getBatchId n"
    using range by (intro exact) simp_all
  have step: "getBatchId_binary64 (getBatchId n + k) = getBatchId n" if "0 \<le> k \<and> k < 100" for k
  proof -
    have g: "getBatchId (getBatchId n + k) = getBatchId n"
      using that by (simp add: getBatchId_offset)
    have "getBatchId_binary64 (getBatchId n + k) = getBatchId (getBatchId n + k)"
      using range that by (intro exact) (simp_all add: g)
    with g show ?thesis by simp
  qed
  show ?thesis
    using getBatchId_exact_properties [of n] step by (simp add: same)
qed

theorem getBatchId_binary64_safe_range_witness:
  "\<bar>207 :: int\<bar> \<le> 2 ^ 53 - 100
   \<and> getBatchId_binary64 207 = 200
   \<and> getBatchId_binary64 (getBatchId_binary64 207 + 99) = getBatchId_binary64 207
   \<and> getBatchId_binary64 (- 1) = - 100"
proof -
  have h: "\<bar>207 :: int\<bar> \<le> 2 ^ 53 - 100" and h': "\<bar>- 1 :: int\<bar> \<le> 2 ^ 53 - 100"
    by simp_all
  note t = getBatchId_binary64_safe_range [OF h]
  have v: "getBatchId_binary64 207 = 200"
    using t by simp
  have "0 \<le> (99 :: int) \<and> (99 :: int) < 100 \<longrightarrow>
          getBatchId_binary64 (getBatchId_binary64 207 + 99) = getBatchId_binary64 207"
    using t by blast
  then have i: "getBatchId_binary64 (getBatchId_binary64 207 + 99) = getBatchId_binary64 207"
    by simp
  have w: "getBatchId_binary64 (- 1) = - 100"
    using getBatchId_binary64_safe_range [OF h'] by simp
  show ?thesis
    using h v i w by simp
qed

text \<open>
  C10. When every batch holds at most one item per id, the result of
  \<open>fetchNewsRawByIds\<close> holds at most one item per distinct requested id: the ids of the
  result are pairwise distinct, the result is no longer than the number of distinct
  requested ids, and it is shorter than an input that repeats an id, also when every
  requested id exists.
\<close>

theorem fetchNewsRawByIds_no_duplicates:
  assumes "\<And>b. distinct (map id_raw (fst (fetchNewsRawBatch w b [])))"
  shows "distinct (map id_raw (fst (fetchNewsRawByIds w ids reqs)))
         \<and> length (fst (fetchNewsRawByIds w ids reqs)) \<le> card (set ids)
         \<and> (\<not> distinct ids \<longrightarrow> length (fst (fetchNewsRawByIds w ids reqs)) < length ids)"
proof -
  let ?found = "filter (\<lambda>i. i \<in> id_raw ` set (delivered w i)) (remdups ids)"
  have ids: "map id_raw (fst (fetchNewsRawByIds w ids reqs)) = ?found"
    using assms by (simp add: fetchNewsRawByIds_eq ids_in_input_order delivered_def)
  have "length (fst (fetchNewsRawByIds w ids reqs)) = length ?found"
    using arg_cong [OF ids, of length] by simp
  also have "\<dots> \<le> length (remdups ids)"
    by (rule length_filter_le)
  also have "\<dots> = card (set ids)"
    by (simp add: length_remdups_card_conv)
  finally have len: "length (fst (fetchNewsRawByIds w ids reqs)) \<le> card (set ids)" .
  have "card (set ids) < length ids" if "\<not> distinct ids"
    using that card_length [of ids] distinct_card [of ids] card_distinct [of ids]
    by (cases "card (set ids) = length ids") auto
  with len show ?thesis
    by (auto simp: ids)
qed

theorem fetchNewsRawByIds_no_duplicates_witness:
  "\<not> distinct [30, 10, 30 :: int]
   \<and> map id_raw (fst (fetchNewsRawByIds demoServer [30, 10, 30] [])) = [10, 30]
   \<and> distinct (map id_raw (fst (fetchNewsRawByIds demoServer [30, 10, 30] [])))
   \<and> length (fst (fetchNewsRawByIds demoServer [30, 10, 30] [])) < length [30, 10, 30 :: int]"
proof -
  have "map id_raw (fst (fetchNewsRawByIds demoServer [30, 10, 30] [])) = [10, 30]"
    by (simp add: fetchNewsRawByIds_eq in_input_order_def delivered_def demo_delivered
          getBatchId_div rawItem_def)
  then show ?thesis
    using fetchNewsRawByIds_no_duplicates [of demoServer "[30, 10, 30]" "[]", OF demo_unique]
    by simp
qed

end
